theory Spec2Isabelle
  imports Complex_Main "HOL-Library.AList" "HOL-Library.Sublist"
begin

text \<open>
  A shallow embedding of the engine core of the game: the clock and world-time
  simulation (\<open>time_manager.py\<close>), the event manager (\<open>event_manager.py\<close>) and the
  stack-based state manager (\<open>state_manager.py\<close>). Mutable objects that are shared by
  reference live in explicit stores, exceptions are values, and the calls that the
  managers make on states and listeners are recorded or given as data. The definitions
  come first; the theorems follow, one section per module.
\<close>

section \<open>Time manager (time\_manager.py): data model\<close>

datatype TimeOfDay = DAWN | MORNING | MIDDAY | AFTERNOON | DUSK | EVENING | NIGHT | MIDNIGHT

datatype Season = SPRING | SUMMER | AUTUMN | WINTER

datatype WeatherType = CLEAR | CLOUDY | RAIN | STORM | FOG | SNOW | CRYSTAL_STORM

text \<open>The dataclass \<open>GameTime\<close>: five Python integers (unbounded, so \<open>int\<close>).\<close>

record GameTime =
  year :: int
  month :: int
  day :: int
  hour :: int
  minute :: int

text \<open>\<open>GameTime()\<close>: the dataclass defaults.\<close>

definition GameTime_default :: GameTime where
  "GameTime_default = \<lparr>year = 1, month = 1, day = 1, hour = 6, minute = 0\<rparr>"

definition total_minutes :: "GameTime \<Rightarrow> int" where
  "total_minutes t =
     (year t - 1) * 365 * 24 * 60 +
     (month t - 1) * 30 * 24 * 60 +
     (day t - 1) * 24 * 60 +
     hour t * 60 +
     minute t"

definition get_time_of_day :: "GameTime \<Rightarrow> TimeOfDay" where
  "get_time_of_day t =
     (if 5 \<le> hour t \<and> hour t < 7 then DAWN
      else if 7 \<le> hour t \<and> hour t < 10 then MORNING
      else if 10 \<le> hour t \<and> hour t < 14 then MIDDAY
      else if 14 \<le> hour t \<and> hour t < 17 then AFTERNOON
      else if 17 \<le> hour t \<and> hour t < 19 then DUSK
      else if 19 \<le> hour t \<and> hour t < 22 then EVENING
      else if (22 \<le> hour t \<and> hour t < 24) \<or> (0 \<le> hour t \<and> hour t < 2) then NIGHT
      else MIDNIGHT)"

definition get_season :: "GameTime \<Rightarrow> Season" where
  "get_season t =
     (if 3 \<le> month t \<and> month t \<le> 5 then SPRING
      else if 6 \<le> month t \<and> month t \<le> 8 then SUMMER
      else if 9 \<le> month t \<and> month t \<le> 11 then AUTUMN
      else WINTER)"

text \<open>
  The ranges the dataclass documents in its field comments (month 1-12, day 1-30,
  hour 0-23, minute 0-59) and that the data model of the specification gives to a
  GameTime value (year at least 1).
\<close>

definition valid_time :: "GameTime \<Rightarrow> bool" where
  "valid_time t \<longleftrightarrow>
     1 \<le> year t \<and> 1 \<le> month t \<and> month t \<le> 12 \<and> 1 \<le> day t \<and> day t \<le> 30 \<and>
     0 \<le> hour t \<and> hour t \<le> 23 \<and> 0 \<le> minute t \<and> minute t \<le> 59"

subsection \<open>Calendar carry: the loop of \<open>_advance_time\<close>\<close>

text \<open>
  One pass through the body of \<open>while self.current_time.minute >= 60\<close>: sixty minutes
  become one hour, and the nested \<open>if\<close>s carry into day, month and year.
\<close>

definition overflow_body :: "GameTime \<Rightarrow> GameTime" where
  "overflow_body t =
     (let t1 = t\<lparr>minute := minute t - 60, hour := hour t + 1\<rparr> in
      if hour t1 \<ge> 24 then
        (let t2 = t1\<lparr>hour := 0, day := day t1 + 1\<rparr> in
         if day t2 > 30 then
           (let t3 = t2\<lparr>day := 1, month := month t2 + 1\<rparr> in
            if month t3 > 12 then t3\<lparr>month := 1, year := year t3 + 1\<rparr> else t3)
         else t2)
      else t1)"

function handle_minute_overflow :: "GameTime \<Rightarrow> GameTime" where
  "handle_minute_overflow t =
     (if minute t \<ge> 60 then handle_minute_overflow (overflow_body t) else t)"
  by pat_completeness auto
termination
  by (relation "measure (\<lambda>t. nat (minute t))")
     (auto simp: overflow_body_def Let_def)

declare handle_minute_overflow.simps [simp del]

text \<open>
  Lines 219-239 of \<open>_advance_time\<close> on the clock's value: add the minutes, then carry.
\<close>

definition advance_minutes :: "int \<Rightarrow> GameTime \<Rightarrow> GameTime" where
  "advance_minutes m t = handle_minute_overflow (t\<lparr>minute := minute t + m\<rparr>)"

subsection \<open>Weather\<close>

text \<open>
  The dataclass \<open>WeatherCondition\<close>. Python floats are modelled as reals: the only float
  comparison the model relies on is \<open>weather_change_probability * minutes > 0.01\<close>, whose
  float and real values agree for the integers used below.
\<close>

record WeatherCondition =
  weather_type :: WeatherType
  intensity :: real
  visibility :: real
  temperature :: real
  wind_speed :: real
  duration_remaining :: int

definition WeatherCondition_default :: WeatherCondition where
  "WeatherCondition_default =
     \<lparr>weather_type = CLEAR, intensity = 0, visibility = 1, temperature = 20,
      wind_speed = 0, duration_remaining = 0\<rparr>"

text \<open>
  What the \<open>random\<close> module returns during one call of \<open>_change_weather\<close>, in the order
  of the calls: the index \<open>random.choice\<close> picks, \<open>random.uniform(0.3, 1.0)\<close>,
  \<open>random.randint(30, 240)\<close>, the visibility and wind draws of the chosen type, and the
  second intensity draw of a crystal storm.
\<close>

record RandomDraws =
  choice_index :: nat
  uniform_intensity :: real
  randint_duration :: int
  uniform_visibility :: real
  uniform_wind :: real
  uniform_crystal_intensity :: real

text \<open>\<open>random.choice(seq)\<close>: IndexError (here \<open>None\<close>) on an empty sequence.\<close>

definition random_choice :: "nat \<Rightarrow> 'a list \<Rightarrow> 'a option" where
  "random_choice i xs = (if xs = [] then None else Some (xs ! (i mod length xs)))"

subsection \<open>Scheduled callbacks\<close>

text \<open>
  A callback is a zero-argument action of the host; the model keeps what the clock can
  observe of a call: whether it returns or raises. \<open>next_execution\<close> is an integer or
  \<open>float('inf')\<close>.
\<close>

datatype callback_outcome = Returns | Raises

datatype exec_time = At int | Never

text \<open>
  \<open>ident\<close> stands for the identity of the Python object: \<open>TemporalEvent\<close> defines no
  \<open>__eq__\<close>, so \<open>list.remove\<close> and \<open>in\<close> compare by identity.
\<close>

record TemporalEvent =
  ident :: nat
  event_time :: GameTime
  callback :: callback_outcome
  name :: string
  repeating :: bool
  repeat_interval :: int
  next_execution :: exec_time

definition TemporalEvent_init ::
  "nat \<Rightarrow> GameTime \<Rightarrow> callback_outcome \<Rightarrow> string \<Rightarrow> bool \<Rightarrow> int \<Rightarrow> TemporalEvent" where
  "TemporalEvent_init i t cb n rep interval =
     \<lparr>ident = i, event_time = t, callback = cb, name = n, repeating = rep,
      repeat_interval = interval, next_execution = At (total_minutes t)\<rparr>"

definition should_execute :: "TemporalEvent \<Rightarrow> GameTime \<Rightarrow> bool" where
  "should_execute ev current =
     (case next_execution ev of
        At n \<Rightarrow> total_minutes current \<ge> n
      | Never \<Rightarrow> False)"

text \<open>
  \<open>TemporalEvent.execute\<close>: the assignments to \<open>next_execution\<close> stand after the call of
  the callback inside the \<open>try\<close>, so a callback that raises leaves the event unchanged.
\<close>

definition execute :: "TemporalEvent \<Rightarrow> GameTime \<Rightarrow> TemporalEvent" where
  "execute ev current =
     (case callback ev of
        Raises \<Rightarrow> ev
      | Returns \<Rightarrow>
          (if repeating ev \<and> repeat_interval ev > 0
           then ev\<lparr>next_execution := At (total_minutes current + repeat_interval ev)\<rparr>
           else ev\<lparr>next_execution := Never\<rparr>))"

subsection \<open>The object store and the TimeManager\<close>

text \<open>
  \<open>GameTime\<close> objects are mutable and shared by reference (\<open>_advance_time\<close> updates the
  clock's object in place, \<open>get_time\<close> hands an object to the caller), so they live in
  a store: a reference is a natural number, \<open>next_ref\<close> the next unused one.
\<close>

record store =
  cells :: "nat \<Rightarrow> GameTime"
  next_ref :: nat

definition alloc :: "GameTime \<Rightarrow> store \<Rightarrow> nat \<times> store" where
  "alloc v h = (next_ref h, h\<lparr>cells := (cells h)(next_ref h := v), next_ref := Suc (next_ref h)\<rparr>)"

text \<open>\<open>GameTime.copy\<close>: a new object with the five fields of the old one.\<close>

definition GameTime_copy :: "nat \<Rightarrow> store \<Rightarrow> nat \<times> store" where
  "GameTime_copy r h =
     alloc \<lparr>year = year (cells h r), month = month (cells h r), day = day (cells h r),
            hour = hour (cells h r), minute = minute (cells h r)\<rparr> h"

text \<open>A write through a reference, as \<open>t.minute = 5\<close> or any other mutation of the object.\<close>

definition mutate :: "nat \<Rightarrow> (GameTime \<Rightarrow> GameTime) \<Rightarrow> store \<Rightarrow> store" where
  "mutate r f h = h\<lparr>cells := (cells h)(r := f (cells h r))\<rparr>"

record TimeManager =
  time_scale :: real
  paused :: bool
  last_real_time :: real
  current_time :: nat
  last_time_of_day :: TimeOfDay
  last_season :: Season
  current_weather :: WeatherCondition
  weather_change_probability :: real
  weather_patterns :: "Season \<rightharpoonup> WeatherType list"
  temporal_events :: "TemporalEvent list"
  completed_events :: "TemporalEvent list"
  accumulated_time :: real

definition default_weather_patterns :: "Season \<rightharpoonup> WeatherType list" where
  "default_weather_patterns =
     [SPRING \<mapsto> [CLEAR, RAIN, CLOUDY],
      SUMMER \<mapsto> [CLEAR, STORM, CLOUDY],
      AUTUMN \<mapsto> [CLOUDY, RAIN, FOG],
      WINTER \<mapsto> [SNOW, CLOUDY, CLEAR]]"

text \<open>\<open>TimeManager.__init__\<close>; \<open>now\<close> is the reading of \<open>time.time()\<close>.\<close>

definition TimeManager_init :: "real \<Rightarrow> real \<Rightarrow> store \<Rightarrow> TimeManager \<times> store" where
  "TimeManager_init scale now h =
     (let (r, h') = alloc GameTime_default h in
      (\<lparr>time_scale = scale, paused = False, last_real_time = now, current_time = r,
        last_time_of_day = get_time_of_day GameTime_default,
        last_season = get_season GameTime_default,
        current_weather = WeatherCondition_default,
        weather_change_probability = 0.001,
        weather_patterns = default_weather_patterns,
        temporal_events = [], completed_events = [], accumulated_time = 0\<rparr>, h'))"

definition get_time :: "store \<Rightarrow> TimeManager \<Rightarrow> nat \<times> store" where
  "get_time h tm = GameTime_copy (current_time tm) h"

text \<open>
  \<open>set_time\<close>: \<open>old_time\<close> and the \<open>new_time\<close> of the emitted event are copies too; the
  clock keeps a copy of the argument, not the argument.
\<close>

definition set_time :: "nat \<Rightarrow> store \<Rightarrow> TimeManager \<Rightarrow> TimeManager \<times> store" where
  "set_time game_time h tm =
     (let (old_time, h1) = GameTime_copy (current_time tm) h;
          (r, h2) = GameTime_copy game_time h1;
          tm' = tm\<lparr>current_time := r\<rparr>;
          (new_time, h3) = GameTime_copy (current_time tm') h2
      in (tm', h3))"

subsection \<open>Weather update\<close>

text \<open>
  \<open>_change_weather\<close>. The log record and the emitted WEATHER\_CHANGED event are left
  out; \<open>None\<close> is the IndexError of \<open>random.choice\<close> on an empty list.
\<close>

definition change_weather :: "RandomDraws \<Rightarrow> store \<Rightarrow> TimeManager \<Rightarrow> TimeManager option" where
  "change_weather dr h tm =
     (let old_weather = weather_type (current_weather tm);
          current_season = get_season (cells h (current_time tm));
          possible_weather =
            (case weather_patterns tm current_season of None \<Rightarrow> [CLEAR] | Some ws \<Rightarrow> ws);
          possible_weather =
            (if length possible_weather > 1
             then filter (\<lambda>w. w \<noteq> old_weather) possible_weather
             else possible_weather)
      in case random_choice (choice_index dr) possible_weather of
           None \<Rightarrow> None
         | Some new_weather \<Rightarrow>
             (let w = (current_weather tm)
                        \<lparr>weather_type := new_weather,
                         intensity := uniform_intensity dr,
                         duration_remaining := randint_duration dr\<rparr>;
                  w = (if new_weather = CLEAR then
                         w\<lparr>visibility := 1, wind_speed := uniform_wind dr\<rparr>
                       else if new_weather = RAIN then
                         w\<lparr>visibility := uniform_visibility dr, wind_speed := uniform_wind dr\<rparr>
                       else if new_weather = STORM then
                         w\<lparr>visibility := uniform_visibility dr, wind_speed := uniform_wind dr\<rparr>
                       else if new_weather = FOG then
                         w\<lparr>visibility := uniform_visibility dr, wind_speed := uniform_wind dr\<rparr>
                       else if new_weather = CRYSTAL_STORM then
                         w\<lparr>visibility := uniform_visibility dr, wind_speed := uniform_wind dr,
                           intensity := uniform_crystal_intensity dr\<rparr>
                       else w)
              in Some (tm\<lparr>current_weather := w\<rparr>)))"

text \<open>
  \<open>_update_weather\<close>: the duration is reduced only while it is positive; the change
  happens when the duration has run out or \<open>change_chance > 0.01\<close>.
\<close>

definition update_weather ::
  "int \<Rightarrow> RandomDraws \<Rightarrow> store \<Rightarrow> TimeManager \<Rightarrow> TimeManager option" where
  "update_weather minutes_passed dr h tm =
     (let tm1 = (if duration_remaining (current_weather tm) > 0
                 then tm\<lparr>current_weather := (current_weather tm)
                        \<lparr>duration_remaining :=
                           duration_remaining (current_weather tm) - minutes_passed\<rparr>\<rparr>
                 else tm);
          change_chance = weather_change_probability tm1 * real_of_int minutes_passed
      in if duration_remaining (current_weather tm1) \<le> 0 \<or> change_chance > 0.01
         then change_weather dr h tm1
         else Some tm1)"

subsection \<open>Processing scheduled callbacks\<close>

text \<open>
  The \<open>for\<close> loop of \<open>_process_temporal_events\<close>: the events after the in-place effect
  of \<open>execute\<close>, and \<open>events_to_remove\<close> in the order of the appends (the same events
  are appended to \<open>completed_events\<close>).
\<close>

fun process_loop :: "GameTime \<Rightarrow> TemporalEvent list \<Rightarrow> TemporalEvent list \<times> TemporalEvent list" where
  "process_loop current [] = ([], [])"
| "process_loop current (ev # evs) =
     (let (ev', rm) =
            (if should_execute ev current then
               (let ev' = execute ev current in
                if \<not> repeating ev' \<or> next_execution ev' = Never then (ev', [ev']) else (ev', []))
             else (ev, []));
          (evs', rms) = process_loop current evs
      in (ev' # evs', rm @ rms))"

text \<open>
  \<open>list.remove(x)\<close> by identity: the first entry that is the object goes. Every removed
  event comes from the list itself, so the ValueError of a missing entry cannot occur.
\<close>

fun remove_event :: "TemporalEvent \<Rightarrow> TemporalEvent list \<Rightarrow> TemporalEvent list" where
  "remove_event e [] = []"
| "remove_event e (x # xs) = (if ident x = ident e then xs else x # remove_event e xs)"

definition process_temporal_events :: "store \<Rightarrow> TimeManager \<Rightarrow> TimeManager" where
  "process_temporal_events h tm =
     (let (evs, events_to_remove) = process_loop (cells h (current_time tm)) (temporal_events tm)
      in tm\<lparr>temporal_events := fold remove_event events_to_remove evs,
            completed_events := completed_events tm @ events_to_remove\<rparr>)"

definition schedule_event ::
  "nat \<Rightarrow> GameTime \<Rightarrow> callback_outcome \<Rightarrow> string \<Rightarrow> bool \<Rightarrow> int \<Rightarrow> TimeManager \<Rightarrow> TimeManager" where
  "schedule_event i t cb n rep interval tm =
     tm\<lparr>temporal_events := temporal_events tm @ [TemporalEvent_init i t cb n rep interval]\<rparr>"

subsection \<open>\<open>_advance_time\<close> on the manager\<close>

text \<open>
  \<open>_advance_time\<close> on the manager: the clock's object is updated in place, then the
  time-of-day and season markers, the weather and the callbacks. The notifications it
  emits go to the event manager's queue and are left out; their two copies of the time
  are allocated as the source does.
\<close>

definition advance_time ::
  "int \<Rightarrow> RandomDraws \<Rightarrow> store \<Rightarrow> TimeManager \<Rightarrow> (TimeManager \<times> store) option" where
  "advance_time minutes dr h tm =
     (let (old_time, h1) = GameTime_copy (current_time tm) h;
          h2 = mutate (current_time tm) (advance_minutes minutes) h1;
          current_time_of_day = get_time_of_day (cells h2 (current_time tm));
          tm1 = (if current_time_of_day \<noteq> last_time_of_day tm
                 then tm\<lparr>last_time_of_day := current_time_of_day\<rparr> else tm);
          current_season = get_season (cells h2 (current_time tm1));
          tm2 = (if current_season \<noteq> last_season tm1
                 then tm1\<lparr>last_season := current_season\<rparr> else tm1)
      in case update_weather minutes dr h2 tm2 of
           None \<Rightarrow> None
         | Some tm3 \<Rightarrow>
             (let tm4 = process_temporal_events h2 tm3;
                  (new_time, h3) = GameTime_copy (current_time tm4) h2
              in Some (tm4, h3)))"

subsection \<open>A fresh manager\<close>

text \<open>
  The manager right after its constructor, on a store that holds nothing else; the
  examples below start from it.
\<close>

definition empty_store :: store where
  "empty_store = \<lparr>cells = (\<lambda>_. GameTime_default), next_ref = 0\<rparr>"

definition fresh_manager :: TimeManager where
  "fresh_manager = fst (TimeManager_init 60 0 empty_store)"

definition fresh_store :: store where
  "fresh_store = snd (TimeManager_init 60 0 empty_store)"

section \<open>Event manager (event\_manager.py)\<close>

datatype EventType =
    PLAYER_LEVEL_UP | PLAYER_DIED | PLAYER_MOVED | PLAYER_HEALTH_CHANGED | PLAYER_MANA_CHANGED
  | COMBAT_STARTED | COMBAT_ENDED | ATTACK_PERFORMED | DAMAGE_DEALT | SKILL_USED
  | STATUS_EFFECT_APPLIED | STATUS_EFFECT_REMOVED
  | QUEST_STARTED | QUEST_COMPLETED | QUEST_FAILED | QUEST_OBJECTIVE_UPDATED
  | DAY_NIGHT_CHANGED | WEATHER_CHANGED | LOCATION_ENTERED | LOCATION_EXITED | NPC_INTERACTION
  | ITEM_ACQUIRED | ITEM_USED | ITEM_EQUIPPED | ITEM_UNEQUIPPED | ITEM_SOLD | ITEM_CRAFTED
  | MENU_OPENED | MENU_CLOSED | DIALOGUE_STARTED | DIALOGUE_ENDED
  | GAME_PAUSED | GAME_RESUMED | SAVE_GAME | LOAD_GAME | SETTINGS_CHANGED

text \<open>
  A Python dictionary with string keys, in insertion order. The values (\<open>Any\<close> in the
  source) are kept as strings.
\<close>

type_synonym py_dict = "(string \<times> string) list"

text \<open>
  The dataclass \<open>GameEvent\<close>; its payload field \<open>data\<close> is called \<open>event_data\<close> here.
\<close>

record GameEvent =
  event_type :: EventType
  event_data :: py_dict
  timestamp :: real
  source :: "string option"

text \<open>
  What a listener's \<open>handle_event\<close> does with an event, as far as the manager can see
  it: the calls it makes on the manager while it runs, in order, and then how it ends,
  by returning a value (its truth value) or by raising an exception. \<open>Emit\<close> carries
  the arguments of \<open>emit\<close> and the reading of \<open>time.time()\<close> at the call, which becomes
  the event's timestamp (\<open>__post_init__\<close> reads the clock again only for a reading of
  zero).
\<close>

datatype action =
    Emit EventType "py_dict option" "string option" real bool
  | ProcessEvents

datatype handler_outcome = Return bool | Raise

text \<open>
  \<open>EventListener\<close>. \<open>listener_id\<close> stands for the identity of the object (\<open>unsubscribe\<close>
  compares with \<open>is\<close>), \<open>listener_handle_event\<close> for its method \<open>handle_event\<close>. The
  manager holds weak references; the listeners of the model are alive.
\<close>

record EventListener =
  listener_id :: nat
  priority :: int
  enabled :: bool
  listener_handle_event :: "GameEvent \<Rightarrow> action list \<times> handler_outcome"

text \<open>
  The fields of \<open>EventManager\<close>, without the leading underscore. \<open>_listeners\<close> is a
  \<open>defaultdict(list)\<close>: a missing key reads as the empty list.
\<close>

record EventManager =
  listeners :: "EventType \<Rightarrow> EventListener list"
  global_listeners :: "EventListener list"
  event_queue :: "GameEvent list"
  processing :: bool
  event_history :: "GameEvent list"
  max_history :: nat

definition EventManager_init :: EventManager where
  "EventManager_init =
     \<lparr>listeners = (\<lambda>_. []), global_listeners = [], event_queue = [], processing = False,
      event_history = [], max_history = 1000\<rparr>"


definition subscribe_global :: "EventListener \<Rightarrow> EventManager \<Rightarrow> EventManager" where
  "subscribe_global listener em =
     em\<lparr>global_listeners := sort_key (\<lambda>l. - priority l) (global_listeners em @ [listener])\<rparr>"

definition unsubscribe :: "EventType \<Rightarrow> EventListener \<Rightarrow> EventManager \<Rightarrow> EventManager" where
  "unsubscribe ty listener em =
     em\<lparr>listeners := (listeners em)
          (ty := filter (\<lambda>l. listener_id l \<noteq> listener_id listener) (listeners em ty))\<rparr>"

definition unsubscribe_global :: "EventListener \<Rightarrow> EventManager \<Rightarrow> EventManager" where
  "unsubscribe_global listener em =
     em\<lparr>global_listeners :=
          filter (\<lambda>l. listener_id l \<noteq> listener_id listener) (global_listeners em)\<rparr>"

text \<open>
  The first lines of \<open>_process_event\<close> (``Add to history''), here \<open>append_history\<close>
  (the state manager has an \<open>_add_to_history\<close> of its own): append, and drop the oldest
  entry when the list has grown beyond \<open>_max_history\<close>.
\<close>

definition append_history :: "GameEvent \<Rightarrow> EventManager \<Rightarrow> EventManager" where
  "append_history event em =
     (let h = event_history em @ [event]
      in em\<lparr>event_history := (if length h > max_history em then tl h else h)\<rparr>)"

text \<open>
  Dispatch. A handler may call \<open>emit\<close> and \<open>process_events\<close> again, and the loop of
  \<open>process_events\<close> runs for as long as handlers keep queueing events, so the functions
  take fuel: every call of \<open>_process_event\<close> and every turn of the loop uses one unit,
  and \<open>None\<close> means the fuel ran out. The copies \<open>[:]\<close> of the listener lists are the
  list arguments of \<open>run_listeners\<close>; the test \<open>event.event_type in self._listeners\<close>
  only skips a loop over an empty list.
\<close>

function (sequential) process_event :: "nat \<Rightarrow> GameEvent \<Rightarrow> EventManager \<Rightarrow> EventManager option"
and run_listeners ::
  "nat \<Rightarrow> GameEvent \<Rightarrow> EventListener list \<Rightarrow> EventManager \<Rightarrow> (bool \<times> EventManager) option"
and run_actions :: "nat \<Rightarrow> action list \<Rightarrow> EventManager \<Rightarrow> EventManager option"
and emit ::
  "nat \<Rightarrow> EventType \<Rightarrow> py_dict option \<Rightarrow> string option \<Rightarrow> real \<Rightarrow> bool \<Rightarrow> EventManager
     \<Rightarrow> EventManager option"
and process_events :: "nat \<Rightarrow> EventManager \<Rightarrow> EventManager option"
and drain_queue :: "nat \<Rightarrow> EventManager \<Rightarrow> EventManager option"
where
  "process_event 0 event em = None"
| "process_event (Suc n) event em =
     (let em1 = append_history event em in
      case run_listeners n event (global_listeners em1) em1 of
        None \<Rightarrow> None
      | Some (consumed, em2) \<Rightarrow>
          if \<not> consumed then
            (case run_listeners n event (listeners em2 (event_type event)) em2 of
               None \<Rightarrow> None
             | Some (consumed', em3) \<Rightarrow> Some em3)
          else Some em2)"
| "run_listeners n event [] em = Some (False, em)"
| "run_listeners n event (listener # rest) em =
     (if enabled listener then
        (case run_actions n (fst (listener_handle_event listener event)) em of
           None \<Rightarrow> None
         | Some em1 \<Rightarrow>
             (if snd (listener_handle_event listener event) = Return True
              then Some (True, em1)
              else run_listeners n event rest em1))
      else run_listeners n event rest em)"
| "run_actions n [] em = Some em"
| "run_actions n (Emit ty d src now immediate # acts) em =
     (case emit n ty d src now immediate em of
        None \<Rightarrow> None
      | Some em1 \<Rightarrow> run_actions n acts em1)"
| "run_actions n (ProcessEvents # acts) em =
     (case process_events n em of
        None \<Rightarrow> None
      | Some em1 \<Rightarrow> run_actions n acts em1)"
| "emit n ty d src now immediate em =
     (let event = \<lparr>event_type = ty, event_data = (case d of None \<Rightarrow> [] | Some x \<Rightarrow> x),
                   timestamp = now, source = src\<rparr>
      in if immediate then process_event n event em
         else Some (em\<lparr>event_queue := event_queue em @ [event]\<rparr>))"
| "process_events n em =
     (if processing em then Some em
      else (case drain_queue n (em\<lparr>processing := True\<rparr>) of
              None \<Rightarrow> None
            | Some em1 \<Rightarrow> Some (em1\<lparr>processing := False\<rparr>)))"
| "drain_queue 0 em = (if event_queue em = [] then Some em else None)"
| "drain_queue (Suc n) em =
     (case event_queue em of
        [] \<Rightarrow> Some em
      | event # rest \<Rightarrow>
          (case process_event n event (em\<lparr>event_queue := rest\<rparr>) of
             None \<Rightarrow> None
           | Some em1 \<Rightarrow> drain_queue n em1))"
  by pat_completeness auto
termination
  by (relation "inv_image (less_than <*lex*> less_than <*lex*> less_than)
        (\<lambda>x. case x of
            Inl (Inl (n, e, em)) \<Rightarrow> (n, 0, 0)
          | Inl (Inr (Inl (n, e, ls, em))) \<Rightarrow> (n, 3, length ls)
          | Inl (Inr (Inr (n, acts, em))) \<Rightarrow> (n, 2, length acts)
          | Inr (Inl (n, ty, d, src, now, imm, em)) \<Rightarrow> (n, 1, 0)
          | Inr (Inr (Inl (n, em))) \<Rightarrow> (n, 1, 0)
          | Inr (Inr (Inr (n, em))) \<Rightarrow> (n, 0, 0))")
     auto

definition emit_immediate ::
  "nat \<Rightarrow> EventType \<Rightarrow> py_dict option \<Rightarrow> string option \<Rightarrow> real \<Rightarrow> EventManager
     \<Rightarrow> EventManager option" where
  "emit_immediate n ty d src now em = emit n ty d src now True em"

text \<open>The last \<open>m\<close> entries of a list: what a history of capacity \<open>m\<close> keeps.\<close>

definition keep_last :: "nat \<Rightarrow> 'a list \<Rightarrow> 'a list" where
  "keep_last m xs = drop (length xs - m) xs"

text \<open>
  Two relations between states of the manager, used to state what dispatching does to
  the history: the history fits its capacity, and a later history is the earlier one
  with more events appended and only the last \<open>max_history\<close> kept.
\<close>

definition bounded_history :: "EventManager \<Rightarrow> bool" where
  "bounded_history em \<longleftrightarrow> length (event_history em) \<le> max_history em"

definition extends_history :: "EventManager \<Rightarrow> EventManager \<Rightarrow> bool" where
  "extends_history em em' \<longleftrightarrow>
     max_history em' = max_history em \<and>
     (\<exists>later. event_history em' = keep_last (max_history em) (event_history em @ later))"

text \<open>A sequence of \<open>emit_immediate\<close> calls, each with its event type and clock reading.\<close>

fun emit_all :: "nat \<Rightarrow> (EventType \<times> real) list \<Rightarrow> EventManager \<Rightarrow> EventManager option" where
  "emit_all n [] em = Some em"
| "emit_all n ((ty, now) # rest) em =
     (case emit_immediate n ty None None now em of
        None \<Rightarrow> None
      | Some em1 \<Rightarrow> emit_all n rest em1)"






text \<open>
  Between two states of the manager during a drain: the events that were appended to
  the queue, and the fact that nothing else happened to the queue, the listener lists
  and the flag.
\<close>

definition added_events :: "EventManager \<Rightarrow> EventManager \<Rightarrow> GameEvent list" where
  "added_events em em' = drop (length (event_queue em)) (event_queue em')"




section \<open>State manager (state\_manager.py)\<close>

datatype StateType =
    SPLASH_SCREEN | MAIN_MENU | CHARACTER_CREATION | LOADING | GAMEPLAY | COMBAT | DIALOGUE
  | INVENTORY | CHARACTER_SHEET | QUEST_LOG | WORLD_MAP | SHOP | CRAFTING | SETTINGS
  | PAUSE_MENU | SAVE_LOAD | GAME_OVER | CREDITS

text \<open>A pygame event: its type code and its attributes.\<close>

type_synonym pygame_event = "nat \<times> py_dict"

text \<open>
  The fields of \<open>GameState\<close>. \<open>state_handle_event\<close> is what the state's \<open>handle_event\<close>
  answers for an event (true: consumed). The other methods are those of the base class,
  which the concrete states extend through \<open>super()\<close>: \<open>enter\<close> sets \<open>active\<close> and
  merges the data, \<open>exit\<close> clears \<open>active\<close>, the rest do nothing the manager can see.
  What a concrete state does besides (drawing, requesting a transition from within
  \<open>handle_event\<close>) is outside the model.
\<close>

record GameState =
  state_type :: StateType
  active :: bool
  initialized :: bool
  data :: py_dict
  can_pause :: bool
  blocks_input :: bool
  overlay :: bool
  state_handle_event :: "pygame_event \<Rightarrow> bool"

text \<open>
  State objects are shared by reference between the registry, the stack and
  \<open>current_state\<close>, so they live in a store and are named by a number. The manager
  also records every method it invokes on a state, in order.
\<close>

datatype call =
    OnInitialize nat
  | Cleanup nat
  | Enter nat "nat option" "py_dict option"
  | Exit nat "nat option"
  | Pause nat
  | Resume nat
  | Update nat real
  | HandleEvent nat pygame_event

text \<open>The pending transition: the dictionary with the keys type, target and data.\<close>

datatype transition = Change StateType py_dict | Push StateType py_dict | Pop

datatype py_error = KeyError

text \<open>
  \<open>StateManager\<close>. \<open>objects\<close> is the store, \<open>calls\<close> the record of invoked methods;
  \<open>max_state_history\<close> is the field \<open>max_history\<close>. The unused \<open>_transition_data\<close> is
  left out.
\<close>

record StateManager =
  objects :: "nat \<Rightarrow> GameState"
  states :: "StateType \<rightharpoonup> nat"
  state_stack :: "nat list"
  current_state :: "nat option"
  pending_transition :: "transition option"
  state_history :: "StateType list"
  max_state_history :: nat
  calls :: "call list"

definition StateManager_init :: "(nat \<Rightarrow> GameState) \<Rightarrow> StateManager" where
  "StateManager_init objs =
     \<lparr>objects = objs, states = Map.empty, state_stack = [], current_state = None,
      pending_transition = None, state_history = [], max_state_history = 50, calls = []\<rparr>"

definition log_call :: "call \<Rightarrow> StateManager \<Rightarrow> StateManager" where
  "log_call c sm = sm\<lparr>calls := calls sm @ [c]\<rparr>"

definition set_object :: "nat \<Rightarrow> (GameState \<Rightarrow> GameState) \<Rightarrow> StateManager \<Rightarrow> StateManager" where
  "set_object r f sm = sm\<lparr>objects := (objects sm)(r := f (objects sm r))\<rparr>"

text \<open>\<open>dict.update\<close>: an existing key keeps its place, a new key goes to the end.\<close>

definition dict_update :: "py_dict \<Rightarrow> py_dict \<Rightarrow> py_dict" where
  "dict_update d other = fold (\<lambda>(k, v). AList.update k v) other d"

subsection \<open>The methods of a state\<close>

definition GameState_enter :: "nat \<Rightarrow> nat option \<Rightarrow> py_dict option \<Rightarrow> StateManager \<Rightarrow> StateManager" where
  "GameState_enter r previous_state d sm =
     log_call (Enter r previous_state d)
       (set_object r
          (\<lambda>g. g\<lparr>active := True,
                 data := (case d of
                            None \<Rightarrow> data g
                          | Some x \<Rightarrow> if x \<noteq> [] then dict_update (data g) x else data g)\<rparr>)
          sm)"

definition GameState_exit :: "nat \<Rightarrow> nat option \<Rightarrow> StateManager \<Rightarrow> StateManager" where
  "GameState_exit r next_state sm =
     log_call (Exit r next_state) (set_object r (\<lambda>g. g\<lparr>active := False\<rparr>) sm)"

definition GameState_initialize :: "nat \<Rightarrow> StateManager \<Rightarrow> StateManager" where
  "GameState_initialize r sm =
     (if \<not> initialized (objects sm r)
      then set_object r (\<lambda>g. g\<lparr>initialized := True\<rparr>) (log_call (OnInitialize r) sm)
      else sm)"

definition GameState_cleanup :: "nat \<Rightarrow> StateManager \<Rightarrow> StateManager" where
  "GameState_cleanup r sm = log_call (Cleanup r) sm"

definition GameState_pause :: "nat \<Rightarrow> StateManager \<Rightarrow> StateManager" where
  "GameState_pause r sm = log_call (Pause r) sm"

definition GameState_resume :: "nat \<Rightarrow> StateManager \<Rightarrow> StateManager" where
  "GameState_resume r sm = log_call (Resume r) sm"

definition GameState_update :: "nat \<Rightarrow> real \<Rightarrow> StateManager \<Rightarrow> StateManager" where
  "GameState_update r delta_time sm = log_call (Update r delta_time) sm"

subsection \<open>Registration\<close>

definition register_state :: "nat \<Rightarrow> StateManager \<Rightarrow> StateManager" where
  "register_state r sm =
     GameState_initialize r (sm\<lparr>states := (states sm)(state_type (objects sm r) \<mapsto> r)\<rparr>)"

definition unregister_state :: "StateType \<Rightarrow> StateManager \<Rightarrow> StateManager" where
  "unregister_state k sm =
     (case states sm k of
        None \<Rightarrow> sm
      | Some r \<Rightarrow> (GameState_cleanup r sm)\<lparr>states := (states sm)(k := None)\<rparr>)"

subsection \<open>Applying a transition\<close>

definition add_to_history :: "StateType \<Rightarrow> StateManager \<Rightarrow> StateManager" where
  "add_to_history k sm =
     (let h = state_history sm @ [k]
      in sm\<lparr>state_history := (if length h > max_state_history sm then tl h else h)\<rparr>)"

text \<open>
  \<open>_perform_state_change\<close>. \<open>self.states[state_type]\<close> raises KeyError for a kind that
  is not registered, before anything is changed.
\<close>

definition perform_state_change ::
  "StateType \<Rightarrow> py_dict option \<Rightarrow> StateManager \<Rightarrow> py_error + StateManager" where
  "perform_state_change k d sm =
     (case states sm k of
        None \<Rightarrow> Inl KeyError
      | Some new_state \<Rightarrow>
          (let sm1 = (case current_state sm of
                        Some c \<Rightarrow> GameState_exit c (Some new_state) sm
                      | None \<Rightarrow> sm);
               sm2 = sm1\<lparr>state_stack := [new_state], current_state := Some new_state\<rparr>;
               sm3 = GameState_enter new_state None d sm2
           in Inr (add_to_history k sm3)))"

definition perform_state_push ::
  "StateType \<Rightarrow> py_dict option \<Rightarrow> StateManager \<Rightarrow> py_error + StateManager" where
  "perform_state_push k d sm =
     (case states sm k of
        None \<Rightarrow> Inl KeyError
      | Some new_state \<Rightarrow>
          (let previous_state = current_state sm;
               sm1 = (case current_state sm of
                        Some c \<Rightarrow> if can_pause (objects sm c) then GameState_pause c sm else sm
                      | None \<Rightarrow> sm);
               sm2 = sm1\<lparr>state_stack := state_stack sm1 @ [new_state],
                         current_state := Some new_state\<rparr>;
               sm3 = GameState_enter new_state previous_state d sm2
           in Inr (add_to_history k sm3)))"

definition perform_state_pop :: "StateManager \<Rightarrow> StateManager" where
  "perform_state_pop sm =
     (if length (state_stack sm) \<le> 1 then sm
      else
        (let popped = last (state_stack sm);
             sm1 = sm\<lparr>state_stack := butlast (state_stack sm)\<rparr>;
             sm2 = GameState_exit popped None sm1;
             sm3 = sm2\<lparr>current_state :=
                        (if state_stack sm2 \<noteq> [] then Some (last (state_stack sm2)) else None)\<rparr>
         in case current_state sm3 of
              Some c \<Rightarrow> GameState_resume c sm3
            | None \<Rightarrow> sm3))"

subsection \<open>Requesting a transition\<close>

text \<open>
  The requests return the manager and the boolean result. \<open>data or {}\<close> is the
  dictionary, or the empty one for \<open>None\<close>.
\<close>

definition data_or_empty :: "py_dict option \<Rightarrow> py_dict" where
  "data_or_empty d = (case d of None \<Rightarrow> [] | Some x \<Rightarrow> x)"

definition change_state ::
  "StateType \<Rightarrow> py_dict option \<Rightarrow> bool \<Rightarrow> StateManager \<Rightarrow> StateManager \<times> bool" where
  "change_state k d immediate sm =
     (if states sm k = None then (sm, False)
      else if immediate then
        (case perform_state_change k d sm of
           Inl e \<Rightarrow> (sm, False)
         | Inr sm' \<Rightarrow> (sm', True))
      else (sm\<lparr>pending_transition := Some (Change k (data_or_empty d))\<rparr>, True))"

definition push_state ::
  "StateType \<Rightarrow> py_dict option \<Rightarrow> bool \<Rightarrow> StateManager \<Rightarrow> StateManager \<times> bool" where
  "push_state k d immediate sm =
     (if states sm k = None then (sm, False)
      else if immediate then
        (case perform_state_push k d sm of
           Inl e \<Rightarrow> (sm, False)
         | Inr sm' \<Rightarrow> (sm', True))
      else (sm\<lparr>pending_transition := Some (Push k (data_or_empty d))\<rparr>, True))"

definition pop_state :: "bool \<Rightarrow> StateManager \<Rightarrow> StateManager \<times> bool" where
  "pop_state immediate sm =
     (if length (state_stack sm) \<le> 1 then (sm, False)
      else if immediate then (perform_state_pop sm, True)
      else (sm\<lparr>pending_transition := Some Pop\<rparr>, True))"

text \<open>
  \<open>back_to_state\<close>: the index of the first stacked state of the kind, the loop that
  pops down to it, and the merge of the data into the state then current.
\<close>

fun find_target :: "(nat \<Rightarrow> GameState) \<Rightarrow> StateType \<Rightarrow> nat list \<Rightarrow> nat option" where
  "find_target objs k [] = None"
| "find_target objs k (r # rs) =
     (if state_type (objs r) = k then Some 0
      else map_option Suc (find_target objs k rs))"

function pop_until :: "nat \<Rightarrow> StateManager \<Rightarrow> StateManager" where
  "pop_until target_index sm =
     (if length (state_stack sm) > target_index + 1
      then pop_until target_index (fst (pop_state True sm))
      else sm)"
  by pat_completeness auto
termination
  by (relation "measure (\<lambda>(i, sm). length (state_stack sm))")
     (auto simp: pop_state_def perform_state_pop_def GameState_exit_def GameState_resume_def
        log_call_def set_object_def Let_def)

declare pop_until.simps [simp del]

definition back_to_state ::
  "StateType \<Rightarrow> py_dict option \<Rightarrow> StateManager \<Rightarrow> StateManager \<times> bool" where
  "back_to_state k d sm =
     (case find_target (objects sm) k (state_stack sm) of
        None \<Rightarrow> (sm, False)
      | Some target_index \<Rightarrow>
          (let sm1 = pop_until target_index sm;
               sm2 = (case (d, current_state sm1) of
                        (Some x, Some c) \<Rightarrow>
                          if x \<noteq> [] then set_object c (\<lambda>g. g\<lparr>data := dict_update (data g) x\<rparr>) sm1
                          else sm1
                      | _ \<Rightarrow> sm1)
           in (sm2, True)))"

text \<open>
  \<open>clear_stack\<close>: the loop pops and exits every stacked state, top first; it leaves
  \<open>current_state\<close> as it was, and the immediate change exits that state once more.
\<close>

fun exit_all :: "nat list \<Rightarrow> StateManager \<Rightarrow> StateManager" where
  "exit_all [] sm = sm"
| "exit_all (r # rs) sm = exit_all rs (GameState_exit r None sm)"

definition clear_stack ::
  "StateType \<Rightarrow> py_dict option \<Rightarrow> StateManager \<Rightarrow> StateManager \<times> bool" where
  "clear_stack new_state d sm =
     (if states sm new_state = None then (sm, False)
      else change_state new_state d True
             ((exit_all (rev (state_stack sm)) sm)\<lparr>state_stack := []\<rparr>))"

subsection \<open>Per frame: update and input\<close>

text \<open>
  \<open>update\<close> clears the pending transition before it applies it; a KeyError of the
  application (the target was unregistered meanwhile) leaves \<open>update\<close> at once.
\<close>

definition update :: "real \<Rightarrow> StateManager \<Rightarrow> StateManager \<times> py_error option" where
  "update delta_time sm =
     (let applied =
            (case pending_transition sm of
               None \<Rightarrow> Inr sm
             | Some t \<Rightarrow>
                 (let sm1 = sm\<lparr>pending_transition := None\<rparr> in
                  case t of
                    Change k d \<Rightarrow>
                      (case perform_state_change k (Some d) sm1 of
                         Inl e \<Rightarrow> Inl (sm1, e) | Inr sm2 \<Rightarrow> Inr sm2)
                  | Push k d \<Rightarrow>
                      (case perform_state_push k (Some d) sm1 of
                         Inl e \<Rightarrow> Inl (sm1, e) | Inr sm2 \<Rightarrow> Inr sm2)
                  | Pop \<Rightarrow> Inr (perform_state_pop sm1)))
      in case applied of
           Inl (sm1, e) \<Rightarrow> (sm1, Some e)
         | Inr sm2 \<Rightarrow>
             (case current_state sm2 of
                Some c \<Rightarrow>
                  if active (objects sm2 c) then (GameState_update c delta_time sm2, None)
                  else (sm2, None)
              | None \<Rightarrow> (sm2, None)))"

text \<open>
  \<open>handle_event\<close>: the loop over \<open>reversed(self.state_stack)\<close>; a state is offered the
  event when it is active and does not set \<open>blocks_input\<close>, and the loop ends at the
  first state that consumes it.
\<close>

fun offer_event :: "pygame_event \<Rightarrow> nat list \<Rightarrow> StateManager \<Rightarrow> StateManager \<times> bool" where
  "offer_event ev [] sm = (sm, False)"
| "offer_event ev (r # rs) sm =
     (if active (objects sm r) \<and> \<not> blocks_input (objects sm r) then
        (if state_handle_event (objects sm r) ev
         then (log_call (HandleEvent r ev) sm, True)
         else offer_event ev rs (log_call (HandleEvent r ev) sm))
      else offer_event ev rs sm)"

definition handle_event :: "pygame_event \<Rightarrow> StateManager \<Rightarrow> StateManager \<times> bool" where
  "handle_event ev sm = offer_event ev (rev (state_stack sm)) sm"

subsection \<open>Sequences of operations, and what they keep\<close>

text \<open>
  The operations a caller can apply to the manager, and a run of them in order (the
  boolean results are dropped, an exception of \<open>update\<close> is caught by the caller).
\<close>

datatype operation =
    RegisterState nat
  | UnregisterState StateType
  | ChangeState StateType "py_dict option" bool
  | PushState StateType "py_dict option" bool
  | PopState bool
  | BackToState StateType "py_dict option"
  | ClearStack StateType "py_dict option"
  | UpdateFrame real

fun apply_operation :: "operation \<Rightarrow> StateManager \<Rightarrow> StateManager" where
  "apply_operation (RegisterState r) sm = register_state r sm"
| "apply_operation (UnregisterState k) sm = unregister_state k sm"
| "apply_operation (ChangeState k d immediate) sm = fst (change_state k d immediate sm)"
| "apply_operation (PushState k d immediate) sm = fst (push_state k d immediate sm)"
| "apply_operation (PopState immediate) sm = fst (pop_state immediate sm)"
| "apply_operation (BackToState k d) sm = fst (back_to_state k d sm)"
| "apply_operation (ClearStack k d) sm = fst (clear_stack k d sm)"
| "apply_operation (UpdateFrame delta_time) sm = fst (update delta_time sm)"

fun apply_operations :: "operation list \<Rightarrow> StateManager \<Rightarrow> StateManager" where
  "apply_operations [] sm = sm"
| "apply_operations (op # ops) sm = apply_operations ops (apply_operation op sm)"

text \<open>
  \<open>current_is_top\<close>: \<open>current_state\<close> is the top of the stack, or \<open>None\<close> for an empty
  stack. \<open>stack_registered\<close>: every stacked state is a value of the registry.
  \<open>keeps_stacked_states\<close>: the operation neither unregisters nor replaces the registry
  entry of a state that is on the stack.
\<close>

definition current_is_top :: "StateManager \<Rightarrow> bool" where
  "current_is_top sm \<longleftrightarrow>
     current_state sm = (if state_stack sm = [] then None else Some (last (state_stack sm)))"

definition stack_registered :: "StateManager \<Rightarrow> bool" where
  "stack_registered sm \<longleftrightarrow> (\<forall>r \<in> set (state_stack sm). \<exists>k. states sm k = Some r)"

fun keeps_stacked_states :: "operation \<Rightarrow> StateManager \<Rightarrow> bool" where
  "keeps_stacked_states (UnregisterState k) sm =
     (case states sm k of None \<Rightarrow> True | Some r \<Rightarrow> r \<notin> set (state_stack sm))"
| "keeps_stacked_states (RegisterState r) sm =
     (case states sm (state_type (objects sm r)) of
        None \<Rightarrow> True
      | Some r' \<Rightarrow> r' = r \<or> r' \<notin> set (state_stack sm))"
| "keeps_stacked_states op sm = True"

fun operations_keep_stacked :: "operation list \<Rightarrow> StateManager \<Rightarrow> bool" where
  "operations_keep_stacked [] sm = True"
| "operations_keep_stacked (op # ops) sm =
     (keeps_stacked_states op sm \<and> operations_keep_stacked ops (apply_operation op sm))"

subsection \<open>An example: menu, gameplay and a pause menu that blocks input\<close>

text \<open>
  Objects 2, 3 and 4 are the main menu, the gameplay state (which consumes every event
  it is offered) and the pause menu (\<open>blocks_input\<close> and \<open>overlay\<close> set); the three are
  registered, gameplay is made current, and the pause menu is pushed on top of it.
\<close>

definition example_objects :: "nat \<Rightarrow> GameState" where
  "example_objects r =
     \<lparr>state_type = (if r = 2 then MAIN_MENU else if r = 3 then GAMEPLAY
                     else if r = 4 then PAUSE_MENU else SETTINGS),
      active = False, initialized = False, data = [], can_pause = True,
      blocks_input = (r = 4), overlay = (r = 4),
      state_handle_event = (\<lambda>ev. r = 3)\<rparr>"

definition registered_game :: StateManager where
  "registered_game =
     register_state 4 (register_state 3 (register_state 2 (StateManager_init example_objects)))"

definition running_game :: StateManager where
  "running_game = fst (change_state GAMEPLAY None True registered_game)"

definition paused_game :: StateManager where
  "paused_game = fst (push_state PAUSE_MENU None True running_game)"

section \<open>Theorems\<close>

lemma handle_minute_overflow_small:
  "minute t < 60 \<Longrightarrow> handle_minute_overflow t = t"
  by (subst handle_minute_overflow.simps) simp

lemma handle_minute_overflow_once:
  "60 \<le> minute t \<Longrightarrow> minute t < 120 \<Longrightarrow> handle_minute_overflow t = overflow_body t"
proof -
  assume a: "60 \<le> minute t" and b: "minute t < 120"
  have "minute (overflow_body t) < 60"
    using b by (simp add: overflow_body_def Let_def)
  then have "handle_minute_overflow (overflow_body t) = overflow_body t"
    by (rule handle_minute_overflow_small)
  then show ?thesis
    using a by (subst handle_minute_overflow.simps) simp
qed

lemma advance_one_minute:
  assumes "valid_time t"
  shows "advance_minutes 1 t =
     (if minute t < 59 then t\<lparr>minute := minute t + 1\<rparr>
      else if hour t < 23 then t\<lparr>minute := 0, hour := hour t + 1\<rparr>
      else if day t < 30 then t\<lparr>minute := 0, hour := 0, day := day t + 1\<rparr>
      else if month t < 12 then t\<lparr>minute := 0, hour := 0, day := 1, month := month t + 1\<rparr>
      else t\<lparr>minute := 0, hour := 0, day := 1, month := 1, year := year t + 1\<rparr>)"
proof (cases "minute t < 59")
  case True
  then show ?thesis
    by (simp add: advance_minutes_def handle_minute_overflow_small)
next
  case False
  with assms have m: "minute t = 59" by (simp add: valid_time_def)
  have "advance_minutes 1 t = overflow_body (t\<lparr>minute := minute t + 1\<rparr>)"
    unfolding advance_minutes_def
    by (rule handle_minute_overflow_once) (simp_all add: m)
  also have "\<dots> =
     (if hour t < 23 then t\<lparr>minute := 0, hour := hour t + 1\<rparr>
      else if day t < 30 then t\<lparr>minute := 0, hour := 0, day := day t + 1\<rparr>
      else if month t < 12 then t\<lparr>minute := 0, hour := 0, day := 1, month := month t + 1\<rparr>
      else t\<lparr>minute := 0, hour := 0, day := 1, month := 1, year := year t + 1\<rparr>)"
    by (simp add: overflow_body_def Let_def m)
  finally show ?thesis
    using m by simp
qed


lemma total_minutes_advance_one:
  assumes "valid_time t"
  shows "total_minutes t < total_minutes (advance_minutes 1 t)"
  using assms unfolding advance_one_minute [OF assms]
  by (simp add: total_minutes_def valid_time_def)

lemma valid_time_advance_one:
  assumes "valid_time t"
  shows "valid_time (advance_minutes 1 t)"
  using assms unfolding advance_one_minute [OF assms]
  by (simp add: valid_time_def)

lemma advance_two_minutes_scenario:
  "advance_minutes 2 \<lparr>year = 1, month = 2, day = 30, hour = 23, minute = 59\<rparr> =
     \<lparr>year = 1, month = 3, day = 1, hour = 0, minute = 1\<rparr>"
proof -
  have "advance_minutes 2 \<lparr>year = 1, month = 2, day = 30, hour = 23, minute = 59\<rparr> =
        overflow_body \<lparr>year = 1, month = 2, day = 30, hour = 23, minute = 61\<rparr>"
    unfolding advance_minutes_def
    by (simp add: handle_minute_overflow_once)
  then show ?thesis
    by (simp add: overflow_body_def Let_def)
qed

text \<open>
  C6. For every GameTime value within the documented ranges, advancing by one minute
  strictly increases \<open>total_minutes\<close>, stays within the ranges, and carries at the unit
  boundaries: minute 59 rolls the hour, hour 23 rolls the day, day 30 rolls the month,
  month 12 rolls the year. Advancing year 1, month 2, day 30, 23:59 by two minutes gives
  year 1, month 3, day 1, 00:01.
\<close>

theorem advance_minute_monotonic_and_carries:
  assumes "valid_time t"
  shows "total_minutes t < total_minutes (advance_minutes 1 t) \<and>
         valid_time (advance_minutes 1 t) \<and>
         advance_minutes 1 t =
           (if minute t < 59 then t\<lparr>minute := minute t + 1\<rparr>
            else if hour t < 23 then t\<lparr>minute := 0, hour := hour t + 1\<rparr>
            else if day t < 30 then t\<lparr>minute := 0, hour := 0, day := day t + 1\<rparr>
            else if month t < 12 then
              t\<lparr>minute := 0, hour := 0, day := 1, month := month t + 1\<rparr>
            else t\<lparr>minute := 0, hour := 0, day := 1, month := 1, year := year t + 1\<rparr>) \<and>
         advance_minutes 2 \<lparr>year = 1, month = 2, day = 30, hour = 23, minute = 59\<rparr> =
           \<lparr>year = 1, month = 3, day = 1, hour = 0, minute = 1\<rparr>"
  using total_minutes_advance_one [OF assms] valid_time_advance_one [OF assms]
        advance_one_minute [OF assms] advance_two_minutes_scenario
  by blast

theorem advance_minute_monotonic_and_carries_witness:
  "valid_time \<lparr>year = 3, month = 12, day = 30, hour = 23, minute = 59\<rparr> \<and>
   total_minutes \<lparr>year = 3, month = 12, day = 30, hour = 23, minute = 59\<rparr>
     < total_minutes (advance_minutes 1 \<lparr>year = 3, month = 12, day = 30, hour = 23, minute = 59\<rparr>) \<and>
   advance_minutes 1 \<lparr>year = 3, month = 12, day = 30, hour = 23, minute = 59\<rparr> =
     \<lparr>year = 4, month = 1, day = 1, hour = 0, minute = 0\<rparr>"
proof -
  have v: "valid_time \<lparr>year = 3, month = 12, day = 30, hour = 23, minute = 59\<rparr>"
    by (simp add: valid_time_def)
  show ?thesis
    using v advance_minute_monotonic_and_carries [OF v] by (simp add: total_minutes_def)
qed


subsection \<open>Weather update\<close>

lemma change_chance_threshold:
  "(0.001 * real_of_int m > 0.01) = (m > 10)"
proof -
  have "(0.001 * real_of_int m > 0.01) = (real_of_int m > 10)"
    by (simp add: field_simps)
  also have "\<dots> = (m > 10)"
    by linarith
  finally show ?thesis .
qed

text \<open>
  C4 (evaluation of the code). With the constructor's \<open>weather_change_probability\<close> of
  0.001, \<open>_update_weather\<close> changes the weather exactly when the duration has run out
  or more than ten minutes have passed in the batch: for every value the random module
  may return, the decision is the same, so it is no random draw. (The floats
  \<open>0.001 * m\<close> and \<open>0.01\<close> compare as the reals do for every integer \<open>m\<close>:
  \<open>0.001 * 10 > 0.01\<close> is false and \<open>0.001 * 11 > 0.01\<close> is true in Python.)
\<close>

theorem update_weather_change_is_deterministic:
  "update_weather m dr h (tm\<lparr>weather_change_probability := 0.001\<rparr>) =
     (let tm0 = tm\<lparr>weather_change_probability := 0.001\<rparr>;
          d = duration_remaining (current_weather tm0);
          tm1 = (if d > 0
                 then tm0\<lparr>current_weather := (current_weather tm0)\<lparr>duration_remaining := d - m\<rparr>\<rparr>
                 else tm0)
      in if duration_remaining (current_weather tm1) \<le> 0 \<or> m > 10
         then change_weather dr h tm1
         else Some tm1)"
  by (simp add: update_weather_def Let_def change_chance_threshold)


subsection \<open>The clock's object and the copies handed out\<close>

lemma GameTime_copy_fresh:
  "GameTime_copy r h = (r', h') \<Longrightarrow>
     r' = next_ref h \<and> next_ref h' = Suc (next_ref h) \<and> cells h' r' = cells h r \<and>
     (\<forall>q. q \<noteq> r' \<longrightarrow> cells h' q = cells h q)"
  by (auto simp: GameTime_copy_def alloc_def)

text \<open>
  The clock's reference always points below \<open>next_ref\<close>: the constructor allocates the
  object, and \<open>get_time\<close>, \<open>set_time\<close> and \<open>_advance_time\<close> keep it so.
\<close>

lemma clock_allocated_init:
  "TimeManager_init scale now h = (tm, h') \<Longrightarrow> current_time tm < next_ref h'"
  by (auto simp: TimeManager_init_def alloc_def Let_def)

lemma clock_allocated_get_time:
  "current_time tm < next_ref h \<Longrightarrow> get_time h tm = (r, h') \<Longrightarrow> current_time tm < next_ref h'"
  by (auto simp: get_time_def GameTime_copy_def alloc_def)

lemma clock_allocated_set_time:
  "set_time g h tm = (tm', h') \<Longrightarrow> current_time tm' < next_ref h'"
  by (auto simp: set_time_def GameTime_copy_def alloc_def Let_def split: prod.splits)

lemma clock_reference_kept:
  "current_time (process_temporal_events h tm) = current_time tm"
  "change_weather dr h tm = Some tm' \<Longrightarrow> current_time tm' = current_time tm"
  "update_weather m dr h tm = Some tm' \<Longrightarrow> current_time tm' = current_time tm"
proof -
  show "current_time (process_temporal_events h tm) = current_time tm"
    by (simp add: process_temporal_events_def split: prod.splits)
  show c: "current_time tm' = current_time tm" if "change_weather dr h tm = Some tm'" for tm tm'
    using that by (auto simp: change_weather_def Let_def split: option.splits)
  show "update_weather m dr h tm = Some tm' \<Longrightarrow> current_time tm' = current_time tm"
    by (auto simp: update_weather_def Let_def split: if_splits dest: c)
qed

lemma clock_allocated_advance_time:
  assumes "current_time tm < next_ref h" and "advance_time m dr h tm = Some (tm', h')"
  shows "current_time tm' < next_ref h'"
proof -
  obtain old_time h1 where c1: "GameTime_copy (current_time tm) h = (old_time, h1)"
    by (cases "GameTime_copy (current_time tm) h")
  define h2 where "h2 = mutate (current_time tm) (advance_minutes m) h1"
  define tm1 where
    "tm1 = (if get_time_of_day (cells h2 (current_time tm)) \<noteq> last_time_of_day tm
            then tm\<lparr>last_time_of_day := get_time_of_day (cells h2 (current_time tm))\<rparr>
            else tm)"
  define tm2 where
    "tm2 = (if get_season (cells h2 (current_time tm1)) \<noteq> last_season tm1
            then tm1\<lparr>last_season := get_season (cells h2 (current_time tm1))\<rparr>
            else tm1)"
  have ct: "current_time tm2 = current_time tm"
    by (simp add: tm2_def tm1_def)
  from assms(2) obtain tm3 where
    w: "update_weather m dr h2 tm2 = Some tm3" and
    r: "(tm', h') = (process_temporal_events h2 tm3,
                     snd (GameTime_copy (current_time (process_temporal_events h2 tm3)) h2))"
    unfolding advance_time_def c1 Let_def prod.case h2_def [symmetric] tm1_def [symmetric]
      tm2_def [symmetric]
    by (auto split: option.splits prod.splits)
  from w have "current_time tm3 = current_time tm2"
    by (rule clock_reference_kept(3))
  with ct r have t: "current_time tm' = current_time tm"
    by (simp add: clock_reference_kept(1))
  from c1 have "next_ref h1 = Suc (next_ref h)"
    by (auto simp: GameTime_copy_def alloc_def)
  then have "next_ref h2 = Suc (next_ref h)"
    by (simp add: h2_def mutate_def)
  with r have "next_ref h' = Suc (Suc (next_ref h))"
    by (simp add: GameTime_copy_def alloc_def)
  with t assms(1) show ?thesis by simp
qed

text \<open>
  C10. \<open>get_time\<close> returns a copy: the returned object holds the clock's time, it is not
  the clock's object, and whatever mutation \<open>f\<close> the caller applies to it, the clock's
  time is unchanged and the next \<open>get_time\<close> returns the same time as before.
\<close>

theorem get_time_returns_copy:
  assumes "current_time tm < next_ref h"
  shows "(let (r, h1) = get_time h tm;
              h2 = mutate r f h1;
              (r', h3) = get_time h2 tm
          in r \<noteq> current_time tm \<and>
             cells h1 r = cells h (current_time tm) \<and>
             cells h2 (current_time tm) = cells h (current_time tm) \<and>
             cells h3 r' = cells h (current_time tm))"
  using assms
  by (simp add: get_time_def GameTime_copy_def alloc_def mutate_def Let_def)

theorem get_time_returns_copy_witness:
  "(let h = \<lparr>cells = (\<lambda>_. GameTime_default), next_ref = 1\<rparr>;
        tm = fst (TimeManager_init 60 0 \<lparr>cells = (\<lambda>_. GameTime_default), next_ref = 0\<rparr>);
        (r, h1) = get_time h tm;
        h2 = mutate r (\<lambda>t. t\<lparr>hour := 23, minute := 59\<rparr>) h1;
        (r', h3) = get_time h2 tm
    in current_time tm < next_ref h \<and> r \<noteq> current_time tm \<and>
       cells h2 r = \<lparr>year = 1, month = 1, day = 1, hour = 23, minute = 59\<rparr> \<and>
       cells h3 r' = \<lparr>year = 1, month = 1, day = 1, hour = 6, minute = 0\<rparr>)"
  using get_time_returns_copy
    [of "fst (TimeManager_init 60 0 \<lparr>cells = (\<lambda>_. GameTime_default), next_ref = 0\<rparr>)"
        "\<lparr>cells = (\<lambda>_. GameTime_default), next_ref = 1\<rparr>"
        "\<lambda>t. t\<lparr>hour := 23, minute := 59\<rparr>"]
  by (simp add: TimeManager_init_def get_time_def GameTime_copy_def alloc_def mutate_def
        Let_def GameTime_default_def)


subsection \<open>Scheduled callbacks\<close>

lemma execute_ident [simp]: "ident (execute ev current) = ident ev"
  by (simp add: execute_def split: callback_outcome.splits)

lemma execute_repeating [simp]: "repeating (execute ev current) = repeating ev"
  by (simp add: execute_def split: callback_outcome.splits)

lemma process_loop_eq:
  "process_loop current evs =
     (map (\<lambda>ev. if should_execute ev current then execute ev current else ev) evs,
      map (\<lambda>ev. execute ev current)
        (filter (\<lambda>ev. should_execute ev current \<and>
                       (\<not> repeating ev \<or> next_execution (execute ev current) = Never)) evs))"
  by (induction evs) (simp_all add: Let_def)

lemma remove_event_distinct:
  "distinct (map ident xs) \<Longrightarrow> remove_event e xs = filter (\<lambda>x. ident x \<noteq> ident e) xs"
proof (induction xs)
  case Nil
  then show ?case by simp
next
  case (Cons x xs)
  show ?case
  proof (cases "ident x = ident e")
    case True
    with Cons.prems have "ident e \<notin> ident ` set xs"
      by simp
    then have "\<forall>y\<in>set xs. ident y \<noteq> ident e"
      by (metis imageI)
    then have "filter (\<lambda>y. ident y \<noteq> ident e) xs = xs"
      by (simp add: filter_id_conv)
    with True show ?thesis by simp
  next
    case False
    with Cons show ?thesis by simp
  qed
qed

lemma fold_remove_event:
  "distinct (map ident xs) \<Longrightarrow>
     fold remove_event rm xs = filter (\<lambda>x. ident x \<notin> ident ` set rm) xs"
proof (induction rm arbitrary: xs)
  case Nil
  then show ?case by simp
next
  case (Cons r rm)
  have d: "distinct (map ident (filter (\<lambda>x. ident x \<noteq> ident r) xs))"
    using Cons.prems by (rule distinct_map_filter)
  have "fold remove_event (r # rm) xs = fold remove_event rm (filter (\<lambda>x. ident x \<noteq> ident r) xs)"
    using Cons.prems by (simp add: remove_event_distinct)
  also have "\<dots> = filter (\<lambda>x. ident x \<notin> ident ` set rm) (filter (\<lambda>x. ident x \<noteq> ident r) xs)"
    using d by (rule Cons.IH)
  also have "\<dots> = filter (\<lambda>x. ident x \<notin> ident ` set (r # rm)) xs"
    by (auto intro: filter_cong)
  finally show ?case .
qed

lemma fold_schedule_event:
  "temporal_events (fold (\<lambda>i. schedule_event i t cb n rep iv) is tm) =
     temporal_events tm @ map (\<lambda>i. TemporalEvent_init i t cb n rep iv) is \<and>
   completed_events (fold (\<lambda>i. schedule_event i t cb n rep iv) is tm) = completed_events tm \<and>
   current_time (fold (\<lambda>i. schedule_event i t cb n rep iv) is tm) = current_time tm"
  by (induction "is" arbitrary: tm) (simp_all add: schedule_event_def)

text \<open>
  C9 (as amended). When a non-repeating scheduled callback is due and its call returns,
  the event's \<open>next_execution\<close> becomes infinite, so it is never due again; the event is
  removed from the pending list and appended to the completed list, which only grows:
  nothing is ever dropped from it.
\<close>

theorem non_repeating_callback_completes:
  assumes "distinct (map ident (temporal_events tm))"
      and "ev \<in> set (temporal_events tm)"
      and "\<not> repeating ev"
      and "callback ev = Returns"
      and "should_execute ev (cells h (current_time tm))"
  shows "ident ev \<notin> ident ` set (temporal_events (process_temporal_events h tm)) \<and>
         (\<exists>fired. completed_events (process_temporal_events h tm) = completed_events tm @ fired \<and>
                  ev\<lparr>next_execution := Never\<rparr> \<in> set fired) \<and>
         \<not> should_execute (ev\<lparr>next_execution := Never\<rparr>) later"
proof -
  define current where "current = cells h (current_time tm)"
  define evs' where
    "evs' = map (\<lambda>ev. if should_execute ev current then execute ev current else ev) (temporal_events tm)"
  define rm where
    "rm = map (\<lambda>ev. execute ev current)
            (filter (\<lambda>ev. should_execute ev current \<and>
                           (\<not> repeating ev \<or> next_execution (execute ev current) = Never))
               (temporal_events tm))"
  have pl: "process_loop current (temporal_events tm) = (evs', rm)"
    by (simp add: process_loop_eq evs'_def rm_def)
  have ex: "execute ev current = ev\<lparr>next_execution := Never\<rparr>"
    using assms(3,4) by (simp add: execute_def)
  have "execute ev current \<in> set rm"
    unfolding rm_def using assms(2,3,5) by (auto simp: current_def)
  then have in_rm: "ev\<lparr>next_execution := Never\<rparr> \<in> set rm"
    by (simp add: ex)
  then have "ident (ev\<lparr>next_execution := Never\<rparr>) \<in> ident ` set rm"
    by (rule imageI)
  then have id_rm: "ident ev \<in> ident ` set rm"
    by simp
  have "map ident evs' = map ident (temporal_events tm)"
    by (simp add: evs'_def)
  then have d: "distinct (map ident evs')"
    using assms(1) by simp
  have te: "temporal_events (process_temporal_events h tm) =
              filter (\<lambda>x. ident x \<notin> ident ` set rm) evs'"
    using pl fold_remove_event [OF d]
    by (simp add: process_temporal_events_def current_def [symmetric])
  have ce: "completed_events (process_temporal_events h tm) = completed_events tm @ rm"
    using pl by (simp add: process_temporal_events_def current_def [symmetric])
  have 1: "ident ev \<notin> ident ` set (temporal_events (process_temporal_events h tm))"
    using id_rm by (auto simp: te)
  have 2: "\<exists>fired. completed_events (process_temporal_events h tm) = completed_events tm @ fired \<and>
                  ev\<lparr>next_execution := Never\<rparr> \<in> set fired"
    using ce in_rm by blast
  have 3: "\<not> should_execute (ev\<lparr>next_execution := Never\<rparr>) later"
    by (simp add: should_execute_def)
  from 1 2 3 show ?thesis by blast
qed


lemma fresh_manager_simps:
  "current_time fresh_manager = 0"
  "temporal_events fresh_manager = []"
  "completed_events fresh_manager = []"
  "cells fresh_store 0 = GameTime_default"
  by (simp_all add: fresh_manager_def fresh_store_def TimeManager_init_def alloc_def
        empty_store_def Let_def)

theorem non_repeating_callback_completes_witness:
  "(let once = TemporalEvent_init 0 GameTime_default Returns ''once'' False 0;
        daily = TemporalEvent_init 1 (GameTime_default\<lparr>day := 2\<rparr>) Returns ''daily'' True 1440;
        tm = schedule_event 1 (GameTime_default\<lparr>day := 2\<rparr>) Returns ''daily'' True 1440
               (schedule_event 0 GameTime_default Returns ''once'' False 0 fresh_manager);
        tm' = process_temporal_events fresh_store tm
    in distinct (map ident (temporal_events tm)) \<and>
       once \<in> set (temporal_events tm) \<and>
       \<not> repeating once \<and>
       callback once = Returns \<and>
       should_execute once (cells fresh_store (current_time tm)) \<and>
       temporal_events tm' = [daily] \<and>
       completed_events tm' = [once\<lparr>next_execution := Never\<rparr>])"
  using non_repeating_callback_completes
    [of "schedule_event 1 (GameTime_default\<lparr>day := 2\<rparr>) Returns ''daily'' True 1440
           (schedule_event 0 GameTime_default Returns ''once'' False 0 fresh_manager)"
        "TemporalEvent_init 0 GameTime_default Returns ''once'' False 0"
        fresh_store]
  by (simp add: Let_def schedule_event_def fresh_manager_simps TemporalEvent_init_def
        process_temporal_events_def should_execute_def execute_def total_minutes_def
        GameTime_default_def)

lemma completed_events_after_n:
  "length (completed_events (process_temporal_events fresh_store
      (fold (\<lambda>i. schedule_event i GameTime_default Returns ''tick'' False 0) [0..<n]
         fresh_manager))) = n"
proof -
  have "filter (\<lambda>ev. should_execute ev GameTime_default \<and>
                      (\<not> repeating ev \<or> next_execution (execute ev GameTime_default) = Never))
          (map (\<lambda>i. TemporalEvent_init i GameTime_default Returns ''tick'' False 0) [0..<n]) =
        map (\<lambda>i. TemporalEvent_init i GameTime_default Returns ''tick'' False 0) [0..<n]"
    by (simp add: filter_id_conv TemporalEvent_init_def should_execute_def)
  then show ?thesis
    by (simp add: process_temporal_events_def fold_schedule_event fresh_manager_simps
          process_loop_eq)
qed

text \<open>
  C9 (the claim as stated fails). No capacity bounds the completed list: after \<open>n\<close>
  non-repeating callbacks have fired, it holds \<open>n\<close> events, for every \<open>n\<close>.
\<close>

theorem completed_events_unbounded:
  "\<not> (\<exists>cap. \<forall>n. length (completed_events (process_temporal_events fresh_store
        (fold (\<lambda>i. schedule_event i GameTime_default Returns ''tick'' False 0) [0..<n]
           fresh_manager))) \<le> cap)"
proof
  assume "\<exists>cap. \<forall>n. length (completed_events (process_temporal_events fresh_store
        (fold (\<lambda>i. schedule_event i GameTime_default Returns ''tick'' False 0) [0..<n]
           fresh_manager))) \<le> cap"
  then obtain cap where "\<forall>n. length (completed_events (process_temporal_events fresh_store
        (fold (\<lambda>i. schedule_event i GameTime_default Returns ''tick'' False 0) [0..<n]
           fresh_manager))) \<le> cap"
    by blast
  then have "length (completed_events (process_temporal_events fresh_store
        (fold (\<lambda>i. schedule_event i GameTime_default Returns ''tick'' False 0) [0..<Suc cap]
           fresh_manager))) \<le> cap"
    by blast
  then show False
    unfolding completed_events_after_n by simp
qed


section \<open>Theorems about the event manager\<close>

lemma keep_last_length: "length (keep_last m xs) \<le> m"
  by (simp add: keep_last_def)

lemma keep_last_id: "length xs \<le> m \<Longrightarrow> keep_last m xs = xs"
  by (simp add: keep_last_def)

lemma keep_last_append: "keep_last m (keep_last m xs @ ys) = keep_last m (xs @ ys)"
proof (cases "length xs \<le> m")
  case True
  then show ?thesis by (simp add: keep_last_def)
next
  case False
  then have a: "length xs + length ys - m = length ys + (length xs - m)"
    by simp
  have "drop (length ys + (length xs - m)) (xs @ ys) =
        drop (length ys) (drop (length xs - m) (xs @ ys))"
    by simp
  also have "drop (length xs - m) (xs @ ys) = drop (length xs - m) xs @ ys"
    by simp
  finally have "drop (length xs + length ys - m) (xs @ ys) =
             drop (length ys) (drop (length xs - m) xs @ ys)"
    by (simp only: a)
  with False show ?thesis
    by (simp add: keep_last_def)
qed

lemma extends_bounded: "extends_history em em' \<Longrightarrow> bounded_history em'"
  by (auto simp: extends_history_def bounded_history_def keep_last_length)

lemma extends_refl: "bounded_history em \<Longrightarrow> extends_history em em"
  unfolding extends_history_def bounded_history_def
  by (auto intro: exI [of _ "[]"] simp: keep_last_id)

lemma extends_trans:
  "extends_history a b \<Longrightarrow> extends_history b c \<Longrightarrow> extends_history a c"
  unfolding extends_history_def
  by (metis append.assoc keep_last_append)

lemma add_to_history_keep_last:
  "length (event_history em) \<le> max_history em \<Longrightarrow>
     event_history (append_history e em) = keep_last (max_history em) (event_history em @ [e])"
proof (cases "length (event_history em) < max_history em")
  case True
  then show ?thesis
    by (simp add: append_history_def keep_last_def Let_def)
next
  case False
  assume "length (event_history em) \<le> max_history em"
  with False have eq: "length (event_history em) = max_history em"
    by simp
  show ?thesis
  proof (cases "event_history em")
    case Nil
    with eq show ?thesis
      by (simp add: append_history_def keep_last_def Let_def)
  next
    case (Cons x xs)
    with eq show ?thesis
      by (simp add: append_history_def keep_last_def Let_def)
  qed
qed

lemma extends_add_to_history:
  "bounded_history em \<Longrightarrow> extends_history em (append_history e em)"
  unfolding extends_history_def bounded_history_def
  by (auto simp: add_to_history_keep_last intro: exI [of _ "[e]"]) (simp add: append_history_def Let_def)

lemma extends_same_history:
  "bounded_history em \<Longrightarrow> event_history em' = event_history em \<Longrightarrow>
     max_history em' = max_history em \<Longrightarrow> extends_history em em'"
  unfolding extends_history_def bounded_history_def
  by (auto intro: exI [of _ "[]"] simp: keep_last_id)

lemma dispatch_extends_history:
  "process_event n e em = Some em' \<Longrightarrow> bounded_history em \<Longrightarrow> extends_history em em'"
  "run_listeners n e ls em = Some r \<Longrightarrow> bounded_history em \<Longrightarrow> extends_history em (snd r)"
  "run_actions n acts em = Some em' \<Longrightarrow> bounded_history em \<Longrightarrow> extends_history em em'"
  "emit n ty d src now imm em = Some em' \<Longrightarrow> bounded_history em \<Longrightarrow> extends_history em em'"
  "process_events n em = Some em' \<Longrightarrow> bounded_history em \<Longrightarrow> extends_history em em'"
  "drain_queue n em = Some em' \<Longrightarrow> bounded_history em \<Longrightarrow> extends_history em em'"
proof (induction n e em and n e ls em and n acts em and n ty d src now imm em and n em and n em
       arbitrary: em' and r and em' and em' and em' and em'
       rule: process_event_run_listeners_run_actions_emit_process_events_drain_queue.induct)
  case (1 event em)
  then show ?case by simp
next
  case (2 n event em)
  let ?em1 = "append_history event em"
  have a: "extends_history em ?em1"
    using "2.prems"(2) by (rule extends_add_to_history)
  then have b1: "bounded_history ?em1" by (rule extends_bounded)
  from "2.prems"(1) obtain c em2 where
    r1: "run_listeners n event (global_listeners ?em1) ?em1 = Some (c, em2)"
    by (auto simp: Let_def split: option.splits)
  from "2.IH"(1) [OF refl r1 b1] have e2: "extends_history ?em1 em2" by simp
  show ?case
  proof (cases c)
    case True
    with "2.prems"(1) r1 have "em' = em2" by (simp add: Let_def)
    with a e2 show ?thesis by (blast intro: extends_trans)
  next
    case False
    with "2.prems"(1) r1 obtain c' where
      r2: "run_listeners n event (listeners em2 (event_type event)) em2 = Some (c', em')"
      by (auto simp: Let_def split: option.splits)
    from "2.IH"(2) [OF refl r1 refl False r2 extends_bounded [OF e2]]
    have "extends_history em2 em'" by simp
    with a e2 show ?thesis by (blast intro: extends_trans)
  qed
next
  case (3 n event em)
  then show ?case by (auto intro: extends_refl)
next
  case (4 n event listener rest em)
  show ?case
  proof (cases "enabled listener")
    case False
    with "4.prems" "4.IH"(3) show ?thesis by simp
  next
    case True
    with "4.prems"(1) obtain em1 where
      r1: "run_actions n (fst (listener_handle_event listener event)) em = Some em1"
      by (auto split: option.splits)
    from "4.IH"(1) [OF True r1 "4.prems"(2)] have e1: "extends_history em em1" .
    show ?thesis
    proof (cases "snd (listener_handle_event listener event) = Return True")
      case T: True
      with True "4.prems"(1) r1 have "r = (True, em1)" by simp
      with e1 show ?thesis by simp
    next
      case F: False
      with True "4.prems"(1) r1 have r2: "run_listeners n event rest em1 = Some r" by simp
      from "4.IH"(2) [OF True r1 F r2 extends_bounded [OF e1]]
      have "extends_history em1 (snd r)" .
      with e1 show ?thesis by (blast intro: extends_trans)
    qed
  qed
next
  case (5 n em)
  then show ?case by (auto intro: extends_refl)
next
  case (6 n ty d src now immediate acts em)
  from "6.prems"(1) obtain em1 where
    r1: "emit n ty d src now immediate em = Some em1" and r2: "run_actions n acts em1 = Some em'"
    by (auto split: option.splits)
  from "6.IH"(1) [OF r1 "6.prems"(2)] have e1: "extends_history em em1" .
  from "6.IH"(2) [OF r1 r2 extends_bounded [OF e1]] have "extends_history em1 em'" .
  with e1 show ?case by (blast intro: extends_trans)
next
  case (7 n acts em)
  from "7.prems"(1) obtain em1 where
    r1: "process_events n em = Some em1" and r2: "run_actions n acts em1 = Some em'"
    by (auto split: option.splits)
  from "7.IH"(1) [OF r1 "7.prems"(2)] have e1: "extends_history em em1" .
  from "7.IH"(2) [OF r1 r2 extends_bounded [OF e1]] have "extends_history em1 em'" .
  with e1 show ?case by (blast intro: extends_trans)
next
  case (8 n ty d src now immediate em)
  show ?case
  proof (cases immediate)
    case True
    with "8.prems" "8.IH" show ?thesis by (simp add: Let_def)
  next
    case False
    with "8.prems" show ?thesis
      by (auto simp: Let_def bounded_history_def intro!: extends_same_history)
  qed
next
  case (9 n em)
  show ?case
  proof (cases "processing em")
    case True
    with "9.prems" show ?thesis by (auto intro: extends_refl)
  next
    case False
    with "9.prems"(1) obtain em1 where
      r1: "drain_queue n (em\<lparr>processing := True\<rparr>) = Some em1" and eq: "em' = em1\<lparr>processing := False\<rparr>"
      by (auto split: option.splits)
    have b: "bounded_history (em\<lparr>processing := True\<rparr>)"
      using "9.prems"(2) by (simp add: bounded_history_def)
    from "9.IH" [OF False r1 b] have "extends_history (em\<lparr>processing := True\<rparr>) em1" .
    then show ?thesis
      by (simp add: extends_history_def eq)
  qed
next
  case (10 em)
  then show ?case by (auto intro: extends_refl split: if_splits)
next
  case (11 n em)
  show ?case
  proof (cases "event_queue em")
    case Nil
    with "11.prems" show ?thesis by (auto intro: extends_refl)
  next
    case (Cons event rest)
    with "11.prems"(1) obtain em1 where
      r1: "process_event n event (em\<lparr>event_queue := rest\<rparr>) = Some em1" and
      r2: "drain_queue n em1 = Some em'"
      by (auto split: option.splits)
    have b: "bounded_history (em\<lparr>event_queue := rest\<rparr>)"
      using "11.prems"(2) by (simp add: bounded_history_def)
    from "11.IH"(1) [OF Cons r1 b] have e1: "extends_history (em\<lparr>event_queue := rest\<rparr>) em1" .
    from "11.IH"(2) [OF Cons r1 r2 extends_bounded [OF e1]] have e2: "extends_history em1 em'" .
    from e1 have "extends_history em em1" by (simp add: extends_history_def)
    with e2 show ?thesis by (blast intro: extends_trans)
  qed
qed

lemma process_event_extends_add_to_history:
  assumes "process_event n e em = Some em'" and "bounded_history em"
  shows "extends_history (append_history e em) em'"
proof (cases n)
  case 0
  with assms show ?thesis by simp
next
  case (Suc m)
  let ?em1 = "append_history e em"
  have b1: "bounded_history ?em1"
    using assms(2) by (blast intro: extends_bounded extends_add_to_history)
  from assms(1) Suc obtain c em2 where
    r1: "run_listeners m e (global_listeners ?em1) ?em1 = Some (c, em2)"
    by (auto simp: Let_def split: option.splits)
  from dispatch_extends_history(2) [OF r1 b1] have e2: "extends_history ?em1 em2" by simp
  show ?thesis
  proof (cases c)
    case True
    with assms(1) Suc r1 have "em' = em2" by (simp add: Let_def)
    with e2 show ?thesis by simp
  next
    case False
    with assms(1) Suc r1 obtain c' where
      r2: "run_listeners m e (listeners em2 (event_type e)) em2 = Some (c', em')"
      by (auto simp: Let_def split: option.splits)
    from dispatch_extends_history(2) [OF r2 extends_bounded [OF e2]]
    have "extends_history em2 em'" by simp
    with e2 show ?thesis by (blast intro: extends_trans)
  qed
qed

lemma emit_all_no_listeners:
  assumes "global_listeners em = []" and "listeners em = (\<lambda>_. [])"
      and "length (event_history em) \<le> max_history em"
  shows "\<exists>em'. emit_all (Suc n) evs em = Some em' \<and>
           global_listeners em' = [] \<and> listeners em' = (\<lambda>_. []) \<and>
           max_history em' = max_history em \<and>
           event_history em' =
             keep_last (max_history em)
               (event_history em @
                map (\<lambda>(ty, now). \<lparr>event_type = ty, event_data = [], timestamp = now,
                                   source = None\<rparr>) evs)"
  using assms
proof (induction evs arbitrary: em)
  case Nil
  then show ?case by (simp add: keep_last_id)
next
  case (Cons p evs)
  obtain ty now where p: "p = (ty, now)" by (cases p)
  let ?e = "\<lparr>event_type = ty, event_data = [], timestamp = now, source = None\<rparr>"
  let ?em1 = "append_history ?e em"
  have step: "emit_immediate (Suc n) ty None None now em = Some ?em1"
    using Cons.prems(1,2) by (simp add: emit_immediate_def Let_def append_history_def)
  have h1: "event_history ?em1 = keep_last (max_history em) (event_history em @ [?e])"
    using Cons.prems(3) by (rule add_to_history_keep_last)
  have m1: "max_history ?em1 = max_history em" "global_listeners ?em1 = []"
       "listeners ?em1 = (\<lambda>_. [])"
    using Cons.prems(1,2) by (simp_all add: append_history_def Let_def)
  have b1: "length (event_history ?em1) \<le> max_history ?em1"
    by (simp add: h1 m1 keep_last_length)
  from Cons.IH [OF m1(2) m1(3) b1] obtain em' where
    r: "emit_all (Suc n) evs ?em1 = Some em'" "global_listeners em' = []"
       "listeners em' = (\<lambda>_. [])" "max_history em' = max_history ?em1"
       "event_history em' =
          keep_last (max_history ?em1)
            (event_history ?em1 @
             map (\<lambda>(ty, now). \<lparr>event_type = ty, event_data = [], timestamp = now,
                                source = None\<rparr>) evs)"
    by blast
  have "event_history em' =
          keep_last (max_history em)
            (event_history em @
             map (\<lambda>(ty, now). \<lparr>event_type = ty, event_data = [], timestamp = now,
                                source = None\<rparr>) (p # evs))"
    by (simp add: r(5) m1(1) h1 keep_last_append p)
  with r(1-4) step m1(1) show ?case
    by (simp add: p)
qed


text \<open>
  C8. Every dispatched event is appended to the history when its dispatch starts, the
  history keeps at most \<open>max_history\<close> (1000) entries, and what it keeps are the most
  recent ones in their order: the oldest entry goes first. Immediate and drained events
  both go through \<open>process_event\<close>. Publishing 1001 events immediately on a new manager
  leaves the last 1000 of them, the first one evicted.
\<close>

theorem dispatched_event_history_bounded_fifo:
  assumes "length (event_history em) \<le> max_history em"
      and "process_event n e em = Some em'"
  shows "event_history (append_history e em) =
           keep_last (max_history em) (event_history em @ [e]) \<and>
         max_history em' = max_history em \<and>
         length (event_history em') \<le> max_history em \<and>
         (\<exists>later. event_history em' =
                    keep_last (max_history em) (event_history em @ e # later)) \<and>
         max_history EventManager_init = 1000 \<and>
         (\<forall>evs. length evs = 1001 \<longrightarrow>
            (\<exists>em''. emit_all 1 evs EventManager_init = Some em'' \<and>
                    length (event_history em'') = 1000 \<and>
                    event_history em'' =
                      tl (map (\<lambda>(ty, now). \<lparr>event_type = ty, event_data = [],
                                                timestamp = now, source = None\<rparr>) evs)))"
proof -
  have b: "bounded_history em"
    using assms(1) by (simp add: bounded_history_def)
  have 1: "event_history (append_history e em) =
             keep_last (max_history em) (event_history em @ [e])"
    using assms(1) by (rule add_to_history_keep_last)
  have x: "extends_history (append_history e em) em'"
    using assms(2) b by (rule process_event_extends_add_to_history)
  have m: "max_history (append_history e em) = max_history em"
    by (simp add: append_history_def Let_def)
  from x have 2: "max_history em' = max_history em"
    by (simp add: extends_history_def m)
  from x obtain later where
    "event_history em' = keep_last (max_history em) (event_history (append_history e em) @ later)"
    by (auto simp: extends_history_def m)
  then have h: "event_history em' = keep_last (max_history em) (event_history em @ e # later)"
    by (simp add: 1 keep_last_append)
  then have 3: "length (event_history em') \<le> max_history em"
    by (simp add: keep_last_length)
  have 5: "\<exists>em''. emit_all 1 evs EventManager_init = Some em'' \<and>
                    length (event_history em'') = 1000 \<and>
                    event_history em'' =
                      tl (map (\<lambda>(ty, now). \<lparr>event_type = ty, event_data = [],
                                                timestamp = now, source = None\<rparr>) evs)"
    if len: "length evs = 1001" for evs
  proof -
    from emit_all_no_listeners [of EventManager_init 0 evs]
    obtain em'' where r: "emit_all 1 evs EventManager_init = Some em''"
      "event_history em'' =
         keep_last 1000 (map (\<lambda>(ty, now). \<lparr>event_type = ty, event_data = [],
                                timestamp = now, source = None\<rparr>) evs)"
      by (auto simp: EventManager_init_def)
    from len have "keep_last 1000 (map (\<lambda>(ty, now). \<lparr>event_type = ty, event_data = [],
                                timestamp = now, source = None\<rparr>) evs) =
        tl (map (\<lambda>(ty, now). \<lparr>event_type = ty, event_data = [],
                                timestamp = now, source = None\<rparr>) evs)"
      by (simp add: keep_last_def drop_Suc)
    with r len show ?thesis by simp
  qed
  have 4: "max_history EventManager_init = 1000"
    by (simp add: EventManager_init_def)
  from 1 2 3 h 4 5 show ?thesis by blast
qed

theorem dispatched_event_history_bounded_fifo_witness:
  "(let old = \<lparr>event_type = GAME_PAUSED, event_data = [], timestamp = 1, source = None\<rparr>;
        new = \<lparr>event_type = GAME_RESUMED, event_data = [], timestamp = 2, source = None\<rparr>;
        em = EventManager_init\<lparr>event_history := replicate 1000 old\<rparr>
    in length (event_history em) \<le> max_history em \<and>
       process_event 1 new em = Some (em\<lparr>event_history := replicate 999 old @ [new]\<rparr>) \<and>
       length (replicate 999 old @ [new]) \<le> max_history em)"
proof -
  let ?old = "\<lparr>event_type = GAME_PAUSED, event_data = [], timestamp = 1, source = None\<rparr>"
  let ?new = "\<lparr>event_type = GAME_RESUMED, event_data = [], timestamp = 2, source = None\<rparr>"
  let ?em = "EventManager_init\<lparr>event_history := replicate 1000 ?old\<rparr>"
  have a: "length (event_history ?em) \<le> max_history ?em"
    by (simp add: EventManager_init_def)
  have b: "process_event 1 ?new ?em = Some (?em\<lparr>event_history := replicate 999 ?old @ [?new]\<rparr>)"
    by (simp add: EventManager_init_def append_history_def Let_def)
  show ?thesis
    using a b dispatched_event_history_bounded_fifo [OF a b]
    by (simp add: Let_def)
qed

subsection \<open>Draining the queue\<close>




lemma added_events_refl [simp]: "added_events em em = []"
  by (simp add: added_events_def)













section \<open>Theorems about the state manager\<close>

lemma registered_game_simps:
  "states registered_game = [MAIN_MENU \<mapsto> 2, GAMEPLAY \<mapsto> 3, PAUSE_MENU \<mapsto> 4]"
  "state_stack registered_game = []"
  "current_state registered_game = None"
  "pending_transition registered_game = None"
  "calls registered_game = [OnInitialize 2, OnInitialize 3, OnInitialize 4]"
  "state_history registered_game = []"
  "max_state_history registered_game = 50"
  "objects registered_game =
     (\<lambda>r. if r = 2 \<or> r = 3 \<or> r = 4 then (example_objects r)\<lparr>initialized := True\<rparr>
          else example_objects r)"
  by (auto simp: registered_game_def register_state_def StateManager_init_def
        GameState_initialize_def set_object_def log_call_def example_objects_def fun_eq_iff)

lemma running_game_simps:
  "states running_game = [MAIN_MENU \<mapsto> 2, GAMEPLAY \<mapsto> 3, PAUSE_MENU \<mapsto> 4]"
  "state_stack running_game = [3]"
  "current_state running_game = Some 3"
  "pending_transition running_game = None"
  "calls running_game = [OnInitialize 2, OnInitialize 3, OnInitialize 4, Enter 3 None None]"
  "objects running_game 3 = (example_objects 3)\<lparr>initialized := True, active := True\<rparr>"
  "objects running_game 4 = (example_objects 4)\<lparr>initialized := True\<rparr>"
  "objects running_game 2 = (example_objects 2)\<lparr>initialized := True\<rparr>"
  by (simp_all add: running_game_def change_state_def perform_state_change_def
        registered_game_simps GameState_enter_def add_to_history_def set_object_def
        log_call_def Let_def)

lemma paused_game_simps:
  "states paused_game = [MAIN_MENU \<mapsto> 2, GAMEPLAY \<mapsto> 3, PAUSE_MENU \<mapsto> 4]"
  "state_stack paused_game = [3, 4]"
  "current_state paused_game = Some 4"
  "calls paused_game = [OnInitialize 2, OnInitialize 3, OnInitialize 4, Enter 3 None None,
                         Pause 3, Enter 4 (Some 3) None]"
  "objects paused_game 3 = (example_objects 3)\<lparr>initialized := True, active := True\<rparr>"
  "objects paused_game 4 = (example_objects 4)\<lparr>initialized := True, active := True\<rparr>"
  "objects paused_game 2 = (example_objects 2)\<lparr>initialized := True\<rparr>"
  by (simp_all add: paused_game_def push_state_def perform_state_push_def
        running_game_simps GameState_enter_def GameState_pause_def add_to_history_def
        set_object_def log_call_def Let_def example_objects_def)

text \<open>
  C1 (evaluation of the code). The stack holds gameplay below the pause menu, and the
  pause menu sets \<open>blocks_input\<close>. \<open>handle_event\<close> skips the pause menu and goes on
  down the stack: gameplay, beneath the blocking state, is offered the event and
  consumes it.
\<close>

theorem blocked_input_reaches_lower_state:
  "state_stack paused_game = [3, 4] \<and>
   blocks_input (objects paused_game 4) \<and>
   handle_event (768, []) paused_game =
     (log_call (HandleEvent 3 (768, [])) paused_game, True)"
  by (simp add: handle_event_def paused_game_simps example_objects_def)

text \<open>
  C7. \<open>pop_state\<close> on a stack of one entry or none returns false and leaves the manager
  as it was: the stack, \<open>current_state\<close>, every state object and the record of invoked
  methods (no exit, pause or resume). The same holds for a queued pop that is applied
  to such a stack.
\<close>

theorem pop_refused_on_singleton:
  assumes "length (state_stack sm) \<le> 1"
  shows "pop_state immediate sm = (sm, False) \<and> perform_state_pop sm = sm"
  using assms by (simp add: pop_state_def perform_state_pop_def)

theorem pop_refused_on_singleton_witness:
  "length (state_stack running_game) \<le> 1 \<and>
   state_stack running_game = [3] \<and>
   pop_state True running_game = (running_game, False) \<and>
   pop_state False running_game = (running_game, False) \<and>
   perform_state_pop running_game = running_game"
  using pop_refused_on_singleton [of running_game True]
        pop_refused_on_singleton [of running_game False]
  by (simp add: running_game_simps)

text \<open>
  C3 (as amended). When a change to a registered target is applied while the stack is
  not empty, exactly two methods are invoked: \<open>exit\<close> on the current (top) state, with
  the target as next state, and \<open>enter\<close> on the target, with no previous state and the
  supplied data. No state is paused, the states below the top are dropped without a
  call, and the stack afterwards holds the target alone, which is current and active.
\<close>

theorem change_exits_current_state_only:
  assumes "states sm k = Some t"
      and "state_stack sm \<noteq> []"
      and "current_state sm = Some (last (state_stack sm))"
  shows "\<exists>sm'. perform_state_change k d sm = Inr sm' \<and>
           calls sm' = calls sm @ [Exit (last (state_stack sm)) (Some t), Enter t None d] \<and>
           state_stack sm' = [t] \<and>
           current_state sm' = Some t \<and>
           active (objects sm' t)"
  using assms
  by (simp add: perform_state_change_def GameState_exit_def GameState_enter_def
        add_to_history_def set_object_def log_call_def Let_def)

theorem change_exits_current_state_only_witness:
  "states paused_game MAIN_MENU = Some 2 \<and>
   state_stack paused_game \<noteq> [] \<and>
   current_state paused_game = Some (last (state_stack paused_game)) \<and>
   (\<exists>sm'. perform_state_change MAIN_MENU (Some [(''slot'', ''1'')]) paused_game = Inr sm' \<and>
          calls sm' = calls paused_game @ [Exit 4 (Some 2), Enter 2 None (Some [(''slot'', ''1'')])] \<and>
          state_stack sm' = [2] \<and> current_state sm' = Some 2)"
  using change_exits_current_state_only
          [of paused_game MAIN_MENU 2 "Some [(''slot'', ''1'')]"]
  by (auto simp: paused_game_simps)

text \<open>
  C3 (the claim as stated fails). With gameplay below the pause menu on the stack, a
  change to the main menu exits the pause menu only: gameplay is removed from the stack
  without \<open>exit\<close> and is still active.
\<close>

theorem change_leaves_lower_state_unexited:
  "state_stack paused_game = [3, 4] \<and>
   map_sum id (\<lambda>sm'. (drop (length (calls paused_game)) (calls sm'),
                        active (objects sm' 3), state_stack sm'))
     (perform_state_change MAIN_MENU None paused_game) =
   Inr ([Exit 4 (Some 2), Enter 2 None None], True, [2])"
  by (simp add: perform_state_change_def paused_game_simps GameState_exit_def
        GameState_enter_def add_to_history_def set_object_def log_call_def Let_def)

subsection \<open>The stack, the registry and the current state\<close>

lemma method_frame [simp]:
  "states (GameState_enter r p d sm) = states sm"
  "state_stack (GameState_enter r p d sm) = state_stack sm"
  "current_state (GameState_enter r p d sm) = current_state sm"
  "states (GameState_exit r n sm) = states sm"
  "state_stack (GameState_exit r n sm) = state_stack sm"
  "current_state (GameState_exit r n sm) = current_state sm"
  "states (GameState_initialize r sm) = states sm"
  "state_stack (GameState_initialize r sm) = state_stack sm"
  "current_state (GameState_initialize r sm) = current_state sm"
  "states (GameState_cleanup r sm) = states sm"
  "state_stack (GameState_cleanup r sm) = state_stack sm"
  "current_state (GameState_cleanup r sm) = current_state sm"
  "states (GameState_pause r sm) = states sm"
  "state_stack (GameState_pause r sm) = state_stack sm"
  "current_state (GameState_pause r sm) = current_state sm"
  "states (GameState_resume r sm) = states sm"
  "state_stack (GameState_resume r sm) = state_stack sm"
  "current_state (GameState_resume r sm) = current_state sm"
  "states (GameState_update r dt sm) = states sm"
  "state_stack (GameState_update r dt sm) = state_stack sm"
  "current_state (GameState_update r dt sm) = current_state sm"
  "states (add_to_history k sm) = states sm"
  "state_stack (add_to_history k sm) = state_stack sm"
  "current_state (add_to_history k sm) = current_state sm"
  "states (set_object r f sm) = states sm"
  "state_stack (set_object r f sm) = state_stack sm"
  "current_state (set_object r f sm) = current_state sm"
  by (simp_all add: GameState_enter_def GameState_exit_def GameState_initialize_def
        GameState_cleanup_def GameState_pause_def GameState_resume_def GameState_update_def
        add_to_history_def set_object_def log_call_def Let_def)

lemma exit_all_frame [simp]:
  "states (exit_all rs sm) = states sm"
  "state_stack (exit_all rs sm) = state_stack sm"
  "current_state (exit_all rs sm) = current_state sm"
  by (induction rs arbitrary: sm) simp_all

text \<open>The two parts of the invariant, operation by operation.\<close>

lemma change_inv:
  "perform_state_change k d sm = Inr sm' \<Longrightarrow>
     current_is_top sm' \<and> stack_registered sm' \<and> states sm' = states sm"
  by (auto simp: perform_state_change_def current_is_top_def stack_registered_def Let_def
        split: option.splits)

lemma push_inv:
  "perform_state_push k d sm = Inr sm' \<Longrightarrow>
     current_is_top sm' \<and> (stack_registered sm \<longrightarrow> stack_registered sm') \<and>
     states sm' = states sm"
  by (auto simp: perform_state_push_def current_is_top_def stack_registered_def Let_def
        split: option.splits if_splits)

lemma pop_inv:
  "current_is_top sm \<Longrightarrow> current_is_top (perform_state_pop sm)"
  "stack_registered sm \<Longrightarrow> stack_registered (perform_state_pop sm)"
  "states (perform_state_pop sm) = states sm"
  by (auto simp: perform_state_pop_def current_is_top_def stack_registered_def Let_def
        split: option.splits dest: in_set_butlastD)

lemma pop_state_inv:
  "current_is_top sm \<Longrightarrow> current_is_top (fst (pop_state immediate sm))"
  "stack_registered sm \<Longrightarrow> stack_registered (fst (pop_state immediate sm))"
  "states (fst (pop_state immediate sm)) = states sm"
  using pop_inv [of sm]
  by (auto simp: pop_state_def current_is_top_def stack_registered_def)

lemma pop_until_inv:
  "current_is_top sm \<Longrightarrow> current_is_top (pop_until i sm)"
  "stack_registered sm \<Longrightarrow> stack_registered (pop_until i sm)"
  "states (pop_until i sm) = states sm"
proof (induction i sm rule: pop_until.induct)
  case (1 i sm)
  {
    case 1
    then show ?case
      using "1.IH"(1) pop_state_inv(1) [of sm True]
      by (subst pop_until.simps) auto
  next
    case 2
    then show ?case
      using "1.IH"(2) pop_state_inv(2) [of sm True]
      by (subst pop_until.simps) auto
  next
    case 3
    show ?case
      using "1.IH"(3) pop_state_inv(3) [of True sm]
      by (subst pop_until.simps) auto
  }
qed




lemma change_fails:
  "perform_state_change k d sm = Inl e \<Longrightarrow> states sm k = None"
  by (simp add: perform_state_change_def Let_def split: option.splits)

lemma update_result:
  "fst (update dt sm) = sm \<or>
   fst (update dt sm) = sm\<lparr>pending_transition := None\<rparr> \<or>
   (\<exists>r. fst (update dt sm) = GameState_update r dt sm) \<or>
   (\<exists>sm2. (fst (update dt sm) = sm2 \<or> (\<exists>r. fst (update dt sm) = GameState_update r dt sm2)) \<and>
      ((\<exists>k d. perform_state_change k d (sm\<lparr>pending_transition := None\<rparr>) = Inr sm2) \<or>
       (\<exists>k d. perform_state_push k d (sm\<lparr>pending_transition := None\<rparr>) = Inr sm2) \<or>
       sm2 = perform_state_pop (sm\<lparr>pending_transition := None\<rparr>)))"
proof (cases "pending_transition sm")
  case None
  then show ?thesis
    by (auto simp: update_def Let_def split: option.splits)
next
  case (Some t)
  show ?thesis
  proof (cases t)
    case (Change k d)
    show ?thesis
    proof (cases "perform_state_change k (Some d) (sm\<lparr>pending_transition := None\<rparr>)")
      case (Inl e)
      with Some Change show ?thesis by (simp add: update_def Let_def)
    next
      case (Inr sm2)
      with Some Change have
        "fst (update dt sm) = sm2 \<or> (\<exists>r. fst (update dt sm) = GameState_update r dt sm2)"
        by (auto simp: update_def Let_def split: option.splits)
      with Inr show ?thesis by blast
    qed
  next
    case (Push k d)
    show ?thesis
    proof (cases "perform_state_push k (Some d) (sm\<lparr>pending_transition := None\<rparr>)")
      case (Inl e)
      with Some Push show ?thesis by (simp add: update_def Let_def)
    next
      case (Inr sm2)
      with Some Push have
        "fst (update dt sm) = sm2 \<or> (\<exists>r. fst (update dt sm) = GameState_update r dt sm2)"
        by (auto simp: update_def Let_def split: option.splits)
      with Inr show ?thesis by blast
    qed
  next
    case Pop
    with Some have
      "fst (update dt sm) = perform_state_pop (sm\<lparr>pending_transition := None\<rparr>) \<or>
       (\<exists>r. fst (update dt sm) =
             GameState_update r dt (perform_state_pop (sm\<lparr>pending_transition := None\<rparr>)))"
      by (auto simp: update_def Let_def split: option.splits)
    then show ?thesis by blast
  qed
qed

lemma update_inv:
  "current_is_top sm \<Longrightarrow> current_is_top (fst (update dt sm))"
  "stack_registered sm \<Longrightarrow> stack_registered (fst (update dt sm))"
proof -
  have frame: "current_is_top (GameState_update r dt x) = current_is_top x"
       "stack_registered (GameState_update r dt x) = stack_registered x"
       "current_is_top (x\<lparr>pending_transition := None\<rparr>) = current_is_top x"
       "stack_registered (x\<lparr>pending_transition := None\<rparr>) = stack_registered x" for r x
    by (simp_all add: current_is_top_def stack_registered_def)
  {
    assume a: "current_is_top sm"
    have b: "current_is_top (perform_state_pop (sm\<lparr>pending_transition := None\<rparr>))"
      using a by (simp add: pop_inv(1) frame)
    show "current_is_top (fst (update dt sm))"
      using update_result [of dt sm] a b
      by (elim disjE exE conjE) (auto simp: frame dest: change_inv push_inv)
  }
  {
    assume a: "stack_registered sm"
    have b: "stack_registered (perform_state_pop (sm\<lparr>pending_transition := None\<rparr>))"
      using a by (simp add: pop_inv(2) frame)
    have c: "stack_registered sm2"
      if "perform_state_push k d (sm\<lparr>pending_transition := None\<rparr>) = Inr sm2" for k d sm2
      using push_inv [OF that] a by (simp add: frame)
    show "stack_registered (fst (update dt sm))"
      using update_result [of dt sm] a b
      by (elim disjE exE conjE) (auto simp: frame dest: change_inv c)
  }
qed

lemma apply_operation_current_is_top:
  "current_is_top sm \<Longrightarrow> current_is_top (apply_operation op sm)"
proof (cases op)
  case (RegisterState r)
  assume "current_is_top sm"
  then show ?thesis
    by (simp add: RegisterState register_state_def current_is_top_def)
next
  case (UnregisterState k)
  assume "current_is_top sm"
  then show ?thesis
    by (simp add: UnregisterState unregister_state_def current_is_top_def split: option.splits)
next
  case (ChangeState k d immediate)
  assume "current_is_top sm"
  then show ?thesis
    using change_inv [of k d sm]
    by (auto simp: ChangeState change_state_def current_is_top_def split: sum.splits)
next
  case (PushState k d immediate)
  assume "current_is_top sm"
  then show ?thesis
    using push_inv [of k d sm]
    by (auto simp: PushState push_state_def current_is_top_def split: sum.splits)
next
  case (PopState immediate)
  assume "current_is_top sm"
  then show ?thesis
    by (simp add: PopState pop_state_inv)
next
  case (BackToState k d)
  assume "current_is_top sm"
  then have "current_is_top (pop_until i sm)" for i
    by (rule pop_until_inv)
  then show ?thesis
    using \<open>current_is_top sm\<close>
    by (auto simp: BackToState back_to_state_def current_is_top_def Let_def
          split: option.splits)
next
  case (ClearStack k d)
  assume "current_is_top sm"
  then show ?thesis
    using change_inv [of k d "(exit_all (rev (state_stack sm)) sm)\<lparr>state_stack := []\<rparr>"]
    by (auto simp: ClearStack clear_stack_def change_state_def current_is_top_def
          split: sum.splits dest: change_fails)
next
  case (UpdateFrame dt)
  assume "current_is_top sm"
  then show ?thesis
    by (simp add: UpdateFrame update_inv)
qed

lemma stack_registered_cong:
  "states a = states b \<Longrightarrow> state_stack a = state_stack b \<Longrightarrow>
     stack_registered a = stack_registered b"
  by (simp add: stack_registered_def)

lemma apply_operation_stack_registered:
  "stack_registered sm \<Longrightarrow> keeps_stacked_states op sm \<Longrightarrow>
     stack_registered (apply_operation op sm)"
proof (cases op)
  case (RegisterState r)
  assume a: "stack_registered sm" and g: "keeps_stacked_states op sm"
  show ?thesis
    unfolding RegisterState stack_registered_def
  proof
    fix q assume q: "q \<in> set (state_stack (apply_operation (RegisterState r) sm))"
    then have qs: "q \<in> set (state_stack sm)"
      by (simp add: register_state_def)
    with a obtain kq where kq: "states sm kq = Some q"
      by (auto simp: stack_registered_def)
    show "\<exists>k. states (apply_operation (RegisterState r) sm) k = Some q"
    proof (cases "kq = state_type (objects sm r)")
      case True
      with g kq qs have "q = r"
        by (simp add: RegisterState)
      then show ?thesis
        by (auto simp: register_state_def)
    next
      case False
      with kq have "states (apply_operation (RegisterState r) sm) kq = Some q"
        by (simp add: register_state_def)
      then show ?thesis ..
    qed
  qed
next
  case (UnregisterState k)
  assume a: "stack_registered sm" and g: "keeps_stacked_states op sm"
  show ?thesis
  proof (cases "states sm k")
    case None
    with a show ?thesis by (simp add: UnregisterState unregister_state_def)
  next
    case (Some r)
    with g have nr: "r \<notin> set (state_stack sm)" by (simp add: UnregisterState)
    show ?thesis
      unfolding UnregisterState stack_registered_def
    proof
      fix q assume "q \<in> set (state_stack (apply_operation (UnregisterState k) sm))"
      then have qs: "q \<in> set (state_stack sm)"
        by (simp add: unregister_state_def Some)
      with a obtain kq where kq: "states sm kq = Some q"
        by (auto simp: stack_registered_def)
      with qs nr Some have "kq \<noteq> k" by auto
      with kq have "states (apply_operation (UnregisterState k) sm) kq = Some q"
        by (simp add: unregister_state_def Some)
      then show "\<exists>k'. states (apply_operation (UnregisterState k) sm) k' = Some q" ..
    qed
  qed
next
  case (ChangeState k d immediate)
  assume a: "stack_registered sm"
  show ?thesis
  proof (cases "perform_state_change k d sm")
    case (Inl e)
    with a show ?thesis
      by (simp add: ChangeState change_state_def stack_registered_cong [of "sm\<lparr>pending_transition := _\<rparr>" sm])
  next
    case (Inr sm')
    then have "stack_registered sm'" by (simp add: change_inv)
    with a Inr show ?thesis
      by (simp add: ChangeState change_state_def stack_registered_cong [of "sm\<lparr>pending_transition := _\<rparr>" sm])
  qed
next
  case (PushState k d immediate)
  assume a: "stack_registered sm"
  show ?thesis
  proof (cases "perform_state_push k d sm")
    case (Inl e)
    with a show ?thesis
      by (simp add: PushState push_state_def stack_registered_cong [of "sm\<lparr>pending_transition := _\<rparr>" sm])
  next
    case (Inr sm')
    then have "stack_registered sm'" using a by (simp add: push_inv)
    with a Inr show ?thesis
      by (simp add: PushState push_state_def stack_registered_cong [of "sm\<lparr>pending_transition := _\<rparr>" sm])
  qed
next
  case (PopState immediate)
  assume "stack_registered sm"
  then show ?thesis
    by (simp add: PopState pop_state_inv)
next
  case (BackToState k d)
  assume a: "stack_registered sm"
  show ?thesis
  proof (cases "find_target (objects sm) k (state_stack sm)")
    case None
    with a show ?thesis by (simp add: BackToState back_to_state_def)
  next
    case (Some i)
    have p: "stack_registered (pop_until i sm)"
      using a by (rule pop_until_inv)
    have "stack_registered (fst (back_to_state k d sm)) = stack_registered (pop_until i sm)"
      by (rule stack_registered_cong)
         (simp_all add: back_to_state_def Some Let_def split: option.splits)
    with p show ?thesis by (simp add: BackToState)
  qed
next
  case (ClearStack k d)
  assume a: "stack_registered sm"
  let ?sm0 = "(exit_all (rev (state_stack sm)) sm)\<lparr>state_stack := []\<rparr>"
  show ?thesis
  proof (cases "states sm k")
    case None
    with a show ?thesis by (simp add: ClearStack clear_stack_def)
  next
    case (Some t)
    then have "states ?sm0 k = Some t" by simp
    then obtain sm' where r: "perform_state_change k d ?sm0 = Inr sm'"
      by (cases "perform_state_change k d ?sm0") (auto dest: change_fails)
    then have "stack_registered sm'" by (simp add: change_inv)
    with r Some show ?thesis
      by (simp add: ClearStack clear_stack_def change_state_def)
  qed
next
  case (UpdateFrame dt)
  assume "stack_registered sm"
  then show ?thesis
    by (simp add: UpdateFrame update_inv)
qed

lemma apply_operations_invariant:
  "current_is_top sm \<Longrightarrow> current_is_top (apply_operations ops sm)"
  "stack_registered sm \<Longrightarrow> operations_keep_stacked ops sm \<Longrightarrow>
     stack_registered (apply_operations ops sm)"
  by (induction ops arbitrary: sm)
     (simp_all add: apply_operation_current_is_top apply_operation_stack_registered)

text \<open>
  C5 (as amended). After every sequence of operations on a new manager,
  \<open>current_state\<close> is the top of the stack, or \<open>None\<close> when the stack is empty. Every
  stacked state is in the registry as long as no operation of the sequence unregisters
  or replaces the registry entry of a state that is on the stack at that moment.
\<close>

theorem stack_invariant:
  "current_is_top (apply_operations ops (StateManager_init objs)) \<and>
   (operations_keep_stacked ops (StateManager_init objs) \<longrightarrow>
      stack_registered (apply_operations ops (StateManager_init objs)))"
proof -
  have "current_is_top (StateManager_init objs)" "stack_registered (StateManager_init objs)"
    by (simp_all add: current_is_top_def stack_registered_def StateManager_init_def)
  then show ?thesis
    by (simp add: apply_operations_invariant)
qed

theorem stack_invariant_witness:
  "(let ops = [RegisterState 2, RegisterState 3, RegisterState 4,
               ChangeState GAMEPLAY None True, PushState PAUSE_MENU None False,
               UpdateFrame 0.016, UnregisterState MAIN_MENU];
        sm = apply_operations ops (StateManager_init example_objects)
    in operations_keep_stacked ops (StateManager_init example_objects) \<and>
       state_stack sm = [3, 4] \<and>
       current_state sm = Some 4 \<and>
       states sm = [GAMEPLAY \<mapsto> 3, PAUSE_MENU \<mapsto> 4] \<and>
       current_is_top sm \<and>
       stack_registered sm)"
proof -
  let ?ops = "[RegisterState 2, RegisterState 3, RegisterState 4,
               ChangeState GAMEPLAY None True, PushState PAUSE_MENU None False,
               UpdateFrame 0.016, UnregisterState MAIN_MENU]"
  have g: "operations_keep_stacked ?ops (StateManager_init example_objects)"
    by (simp add: register_state_def StateManager_init_def GameState_initialize_def
          set_object_def log_call_def example_objects_def change_state_def
          perform_state_change_def push_state_def update_def perform_state_push_def
          GameState_enter_def GameState_pause_def GameState_update_def add_to_history_def
          Let_def data_or_empty_def)
  have s: "state_stack (apply_operations ?ops (StateManager_init example_objects)) = [3, 4]"
          "current_state (apply_operations ?ops (StateManager_init example_objects)) = Some 4"
          "states (apply_operations ?ops (StateManager_init example_objects)) =
             [GAMEPLAY \<mapsto> 3, PAUSE_MENU \<mapsto> 4]"
    by (auto simp: register_state_def StateManager_init_def GameState_initialize_def
          set_object_def log_call_def example_objects_def change_state_def
          perform_state_change_def push_state_def update_def perform_state_push_def
          GameState_enter_def GameState_pause_def GameState_update_def add_to_history_def
          GameState_cleanup_def unregister_state_def Let_def data_or_empty_def fun_eq_iff)
  show ?thesis
    using g s stack_invariant [of ?ops example_objects]
    by (simp add: Let_def)
qed

text \<open>
  C5 (the claim as stated fails). \<open>unregister_state\<close> removes the registry entry of a
  state that is on the stack and leaves the stack alone: after registering gameplay,
  changing to it and unregistering it, the stack still refers to the object and the
  registry is empty.
\<close>

theorem unregister_breaks_stack_registry:
  "(let sm = apply_operations
               [RegisterState 3, ChangeState GAMEPLAY None True, UnregisterState GAMEPLAY]
               (StateManager_init example_objects)
    in state_stack sm = [3] \<and> states sm = Map.empty \<and> \<not> stack_registered sm)"
  by (simp add: register_state_def StateManager_init_def GameState_initialize_def
        set_object_def log_call_def example_objects_def change_state_def
        perform_state_change_def GameState_enter_def add_to_history_def
        GameState_cleanup_def unregister_state_def Let_def stack_registered_def)

end
